theory Spec2Isabelle
  imports Complex_Main "HOL-Library.AList"
begin

section \<open>The blob arena simulation of \<^verbatim>\<open>src/App.tsx\<close> (class \<^verbatim>\<open>GameServer\<close>)\<close>

text \<open>
  Conventions of the embedding.
  \<^item> A JavaScript \<^verbatim>\<open>number\<close> is a \<^typ>\<open>real\<close>: arithmetic is exact, there is no
    rounding, no NaN and no infinity. Millisecond timestamps (\<^verbatim>\<open>Date.now()\<close>) and the
    floored leaderboard mass are integer valued and are \<^typ>\<open>int\<close>.
  \<^item> \<^verbatim>\<open>Map<string, T>\<close> is an association list in insertion order, with
    \<^const>\<open>AList.update\<close> for \<^verbatim>\<open>set\<close> (replace in place, else append) and
    \<^const>\<open>AList.delete\<close> for \<^verbatim>\<open>delete\<close>. \<^verbatim>\<open>Set<string>\<close> is a duplicate free list
    in insertion order.
  \<^item> Objects reached through the map are mutated in place by the source; the model
    rebuilds the map's values, keeping each key at its position.
  \<^item> \<^verbatim>\<open>Math.random()\<close> and \<^verbatim>\<open>Date.now()\<close> are inputs: a function gives the value of
    each successive call. The conversion of a number to a string inside a template
    literal is the parameter \<open>fmt\<close>.
  \<^item> \<^verbatim>\<open>Array.prototype.sort\<close> is a stable sort; it is \<^const>\<open>sort_key\<close> on the negated
    mass, which sorts by descending mass and keeps equal keys in their order.
  \<^item> A division by a zero \<^verbatim>\<open>camera.zoom\<close> gives an infinity or NaN in the source and 0
    in the model; it only enters positions and velocities, on which no property below
    depends.
\<close>

subsection \<open>Constants\<close>

definition WORLD_WIDTH :: real where "WORLD_WIDTH = 3000"
definition WORLD_HEIGHT :: real where "WORLD_HEIGHT = 3000"
definition INITIAL_PLAYER_MASS :: real where "INITIAL_PLAYER_MASS = 20"
definition FOOD_COUNT :: nat where "FOOD_COUNT = 200"
definition FOOD_MASS :: real where "FOOD_MASS = 1"
definition MIN_MASS_TO_SPLIT :: real where "MIN_MASS_TO_SPLIT = 30"
definition RECOMBINE_DELAY_MS :: int where "RECOMBINE_DELAY_MS = 25000"
definition SPLIT_EJECT_SPEED :: real where "SPLIT_EJECT_SPEED = 20"

subsection \<open>Types\<close>

text \<open>\<^verbatim>\<open>Vector.x\<close>, \<^verbatim>\<open>Vector.y\<close> are the fields \<open>vec_x\<close>, \<open>vec_y\<close>; \<^verbatim>\<open>Blob.id\<close> is \<open>blob_id\<close>.\<close>

record Vector =
  vec_x :: real
  vec_y :: real

record Blob =
  blob_id :: string
  pos :: Vector
  mass :: real
  radius :: real
  color :: string
  velocity :: Vector
  name :: string
  canRecombineTime :: int
  playerId :: string

record Food =
  food_pos :: Vector
  food_mass :: real
  food_radius :: real
  food_color :: string

record ChatMessage =
  msg_id :: real
  msg_name :: string
  msg_text :: string
  msg_color :: string

record LeaderboardEntry =
  lb_name :: string
  lb_mass :: int
  lb_playerId :: string

record GameState =
  gs_blobs :: "Blob list"
  gs_food :: "Food list"
  gs_leaderboard :: "LeaderboardEntry list"
  gs_messages :: "ChatMessage list"

text \<open>The mutable fields of \<^verbatim>\<open>GameServer\<close> (the timer handle and the callback apart).\<close>

record World =
  blobs :: "(string \<times> Blob) list"
  food :: "Food list"
  messages :: "ChatMessage list"
  playerNames :: "(string \<times> string) list"

record WindowSize =
  width :: real
  height :: real

record Camera =
  cam_x :: real
  cam_y :: real
  zoom :: real

subsection \<open>Utility functions\<close>

text \<open>\<^verbatim>\<open>random(min, max)\<close>, with the draw \<open>r\<close> of \<^verbatim>\<open>Math.random()\<close> as an argument.\<close>

definition random :: "real \<Rightarrow> real \<Rightarrow> real \<Rightarrow> real" where
  "random r lo hi = r * (hi - lo) + lo"

definition randomColor :: "(real \<Rightarrow> string) \<Rightarrow> real \<Rightarrow> string" where
  "randomColor fmt r = ''hsl('' @ fmt (random r 0 360) @ '', 100%, 50%)''"

definition distance :: "Vector \<Rightarrow> Vector \<Rightarrow> real" where
  "distance p1 p2 = sqrt ((vec_x p1 - vec_x p2)\<^sup>2 + (vec_y p1 - vec_y p2)\<^sup>2)"

definition lerp :: "real \<Rightarrow> real \<Rightarrow> real \<Rightarrow> real" where
  "lerp start end' amt = (1 - amt) * start + amt * end'"

definition massToRadius :: "real \<Rightarrow> real" where
  "massToRadius m = sqrt (m / pi) * 10"

definition getMaxBlobsForMass :: "real \<Rightarrow> nat" where
  "getMaxBlobsForMass m =
     (if m \<ge> 240 then 16
      else if m \<ge> 120 then 8
      else if m \<ge> 60 then 4
      else if m \<ge> MIN_MASS_TO_SPLIT then 2
      else 1)"

text \<open>\<^verbatim>\<open>Math.atan2(y, x)\<close> on the reals (no signed zero).\<close>

definition atan2 :: "real \<Rightarrow> real \<Rightarrow> real" where
  "atan2 y x =
     (if x > 0 then arctan (y / x)
      else if x < 0 \<and> y \<ge> 0 then arctan (y / x) + pi
      else if x < 0 then arctan (y / x) - pi
      else if y > 0 then pi / 2
      else if y < 0 then - (pi / 2)
      else 0)"

text \<open>\<^verbatim>\<open>Set.prototype.add\<close>\<close>

definition set_add :: "string \<Rightarrow> string list \<Rightarrow> string list" where
  "set_add s cs = (if s \<in> set cs then cs else cs @ [s])"

subsection \<open>Construction\<close>

definition createBlob ::
  "(real \<Rightarrow> string) \<Rightarrow> (nat \<Rightarrow> int) \<Rightarrow> (nat \<Rightarrow> real) \<Rightarrow> string \<Rightarrow> string \<Rightarrow> Blob" where
  "createBlob fmt clk rnd pid nm =
     \<lparr> blob_id = pid @ ''-'' @ fmt (of_int (clk 0)) @ ''-'' @ fmt (rnd 0),
       pos = \<lparr> vec_x = random (rnd 1) 0 WORLD_WIDTH, vec_y = random (rnd 2) 0 WORLD_HEIGHT \<rparr>,
       mass = INITIAL_PLAYER_MASS,
       radius = massToRadius INITIAL_PLAYER_MASS,
       color = randomColor fmt (rnd 3),
       velocity = \<lparr> vec_x = 0, vec_y = 0 \<rparr>,
       name = nm,
       canRecombineTime = clk 1,
       playerId = pid \<rparr>"

definition createFood :: "(real \<Rightarrow> string) \<Rightarrow> real \<Rightarrow> real \<Rightarrow> real \<Rightarrow> Food" where
  "createFood fmt r1 r2 r3 =
     \<lparr> food_pos = \<lparr> vec_x = random r1 0 WORLD_WIDTH, vec_y = random r2 0 WORLD_HEIGHT \<rparr>,
       food_mass = FOOD_MASS,
       food_radius = massToRadius FOOD_MASS,
       food_color = randomColor fmt r3 \<rparr>"

text \<open>The constructor: \<^verbatim>\<open>Array.from({ length: FOOD_COUNT }, () => this.createFood())\<close>.\<close>

definition GameServer_new :: "(real \<Rightarrow> string) \<Rightarrow> (nat \<Rightarrow> real) \<Rightarrow> World" where
  "GameServer_new fmt rnd =
     \<lparr> blobs = [],
       food = map (\<lambda>k. createFood fmt (rnd (3 * k)) (rnd (3 * k + 1)) (rnd (3 * k + 2)))
                [0..<FOOD_COUNT],
       messages = [],
       playerNames = [] \<rparr>"

subsection \<open>The tick\<close>

text \<open>Movement: clamp the new position into the world, then damp the velocity.\<close>

definition move_blob :: "Blob \<Rightarrow> Blob" where
  "move_blob b =
     b\<lparr> pos := \<lparr> vec_x = max 0 (min WORLD_WIDTH (vec_x (pos b) + vec_x (velocity b))),
                vec_y = max 0 (min WORLD_HEIGHT (vec_y (pos b) + vec_y (velocity b))) \<rparr>,
        velocity := \<lparr> vec_x = vec_x (velocity b) * 0.98,
                     vec_y = vec_y (velocity b) * 0.98 \<rparr> \<rparr>"

text \<open>
  Blob versus food: \<^verbatim>\<open>this.food.filter(food => ...)\<close> for one blob. The callback grows
  the blob as it goes, so each test reads the radius the blob has by then.
\<close>

fun eat_food :: "Blob \<Rightarrow> Food list \<Rightarrow> Blob \<times> Food list" where
  "eat_food blob [] = (blob, [])"
| "eat_food blob (f # fs) =
     (if distance (pos blob) (food_pos f) < radius blob
      then eat_food (blob\<lparr> mass := mass blob + food_mass f,
                           radius := massToRadius (mass blob + food_mass f) \<rparr>) fs
      else (let (blob', kept) = eat_food blob fs in (blob', f # kept)))"

fun eat_all :: "Blob list \<Rightarrow> Food list \<Rightarrow> Blob list \<times> Food list" where
  "eat_all [] fd = ([], fd)"
| "eat_all (b # bs) fd =
     (let (b', fd') = eat_food b fd;
          (bs', fd'') = eat_all bs fd'
      in (b' # bs', fd''))"

text \<open>
  \<^verbatim>\<open>while (this.food.length < FOOD_COUNT) this.food.push(this.createFood())\<close>; \<open>k\<close>
  counts the draws of \<^verbatim>\<open>Math.random()\<close> made so far.
\<close>

function replenish ::
  "(real \<Rightarrow> string) \<Rightarrow> (nat \<Rightarrow> real) \<Rightarrow> nat \<Rightarrow> Food list \<Rightarrow> Food list" where
  "replenish fmt rnd k fd =
     (if length fd < FOOD_COUNT
      then replenish fmt rnd (k + 3)
             (fd @ [createFood fmt (rnd k) (rnd (k + 1)) (rnd (k + 2))])
      else fd)"
  by pat_completeness auto
termination
  by (relation "measure (\<lambda>(fmt, rnd, k, fd). FOOD_COUNT - length fd)") auto

declare replenish.simps [simp del]

text \<open>
  Blob versus blob. \<open>absorb w l\<close> is
  \<^verbatim>\<open>bw.mass += bl.mass; bw.radius = massToRadius(bw.mass)\<close> on the array of blobs.
\<close>

definition absorb :: "nat \<Rightarrow> nat \<Rightarrow> Blob list \<Rightarrow> Blob list" where
  "absorb w l bs =
     bs[w := (bs ! w)\<lparr> mass := mass (bs ! w) + mass (bs ! l),
                       radius := massToRadius (mass (bs ! w) + mass (bs ! l)) \<rparr>]"

text \<open>
  The body of the inner loop for the pair \<open>(i, j)\<close>; the state is the array
  \<^verbatim>\<open>allBlobs\<close> and \<^verbatim>\<open>consumedBlobIds\<close>, \<open>now\<close> is what \<^verbatim>\<open>Date.now()\<close> returns there.
\<close>

definition resolve_pair ::
  "int \<Rightarrow> nat \<Rightarrow> nat \<Rightarrow> Blob list \<times> string list \<Rightarrow> Blob list \<times> string list" where
  "resolve_pair now i j st =
     (let bs = fst st; consumed = snd st; b1 = bs ! i; b2 = bs ! j in
      if blob_id b1 \<in> set consumed \<or> blob_id b2 \<in> set consumed then st
      else
        let dist = distance (pos b1) (pos b2) in
        if playerId b1 = playerId b2 \<and> playerId b1 \<noteq> [] then
          (if now > canRecombineTime b1 \<and> now > canRecombineTime b2 then
             (if dist < radius b1 \<or> dist < radius b2
              then (absorb i j bs, set_add (blob_id b2) consumed)
              else st)
           else st)
        else
          (if mass b1 > mass b2 * 1.1 \<and> dist < radius b1 - radius b2 * 0.5
           then (absorb i j bs, set_add (blob_id b2) consumed)
           else if mass b2 > mass b1 * 1.1 \<and> dist < radius b2 - radius b1 * 0.5
           then (absorb j i bs, set_add (blob_id b1) consumed)
           else st))"

text \<open>
  The two nested \<^verbatim>\<open>for\<close> loops, \<open>i\<close> from 0 and \<open>j\<close> from \<open>i + 1\<close>, both below the
  fixed length of the array; \<open>clk i j\<close> is the clock reading at the pair \<open>(i, j)\<close>.
\<close>

definition blob_scan ::
  "(nat \<Rightarrow> nat \<Rightarrow> int) \<Rightarrow> Blob list \<Rightarrow> Blob list \<times> string list" where
  "blob_scan clk allBlobs =
     foldl (\<lambda>st i. foldl (\<lambda>st' j. resolve_pair (clk i j) i j st') st
                      [i + 1..<length allBlobs])
       (allBlobs, []) [0..<length allBlobs]"

subsection \<open>The published state\<close>

definition playerMasses :: "Blob list \<Rightarrow> (string \<times> real) list" where
  "playerMasses bs =
     foldl (\<lambda>m b. AList.update (playerId b)
                    ((case map_of m (playerId b) of None \<Rightarrow> 0 | Some v \<Rightarrow> v) + mass b) m)
       [] bs"

text \<open>\<^verbatim>\<open>this.playerNames.get(playerId) || 'Unknown'\<close>: the empty name is falsy.\<close>

definition display_name :: "(string \<times> string) list \<Rightarrow> string \<Rightarrow> string" where
  "display_name names pid =
     (case map_of names pid of
        None \<Rightarrow> ''Unknown''
      | Some n \<Rightarrow> if n = [] then ''Unknown'' else n)"

text \<open>
  \<^verbatim>\<open>.map(...)\<close>, then \<^verbatim>\<open>.sort((a, b) => b.mass - a.mass)\<close>, a stable sort by descending
  mass, then \<^verbatim>\<open>.slice(0, 10)\<close>.
\<close>

definition leaderboard_entries ::
  "(string \<times> string) list \<Rightarrow> Blob list \<Rightarrow> LeaderboardEntry list" where
  "leaderboard_entries names bs =
     map (\<lambda>(pid, m). \<lparr> lb_name = display_name names pid, lb_mass = \<lfloor>m\<rfloor>, lb_playerId = pid \<rparr>)
       (playerMasses bs)"

definition leaderboard_sorted ::
  "(string \<times> string) list \<Rightarrow> Blob list \<Rightarrow> LeaderboardEntry list" where
  "leaderboard_sorted names bs = sort_key (\<lambda>e. - lb_mass e) (leaderboard_entries names bs)"

definition pushState :: "World \<Rightarrow> GameState" where
  "pushState w =
     \<lparr> gs_blobs = map snd (blobs w),
       gs_food = food w,
       gs_leaderboard = take 10 (leaderboard_sorted (playerNames w) (map snd (blobs w))),
       gs_messages = messages w \<rparr>"

text \<open>The array the pair scan starts from: the blobs after movement and feeding.\<close>

definition scan_input :: "World \<Rightarrow> Blob list" where
  "scan_input w = fst (eat_all (map (move_blob \<circ> snd) (blobs w)) (food w))"

definition tick ::
  "(real \<Rightarrow> string) \<Rightarrow> (nat \<Rightarrow> nat \<Rightarrow> int) \<Rightarrow> (nat \<Rightarrow> real) \<Rightarrow> World \<Rightarrow> World \<times> GameState" where
  "tick fmt clk rnd w =
     (let allBlobs = map (move_blob \<circ> snd) (blobs w);
          (fed, food1) = eat_all allBlobs (food w);
          food2 = replenish fmt rnd 0 food1;
          (scanned, consumedBlobIds) = blob_scan clk fed;
          blobs2 = fold AList.delete consumedBlobIds (zip (map fst (blobs w)) scanned);
          w' = w\<lparr> blobs := blobs2, food := food2 \<rparr>
      in (w', pushState w'))"

subsection \<open>Player actions\<close>

text \<open>
  \<^verbatim>\<open>connectPlayer\<close> returns the new player id; the model also returns the new world
  and the state it pushes. \<open>clk 0\<close> is read for the player id, \<open>clk 1\<close> and \<open>clk 2\<close>
  inside \<^verbatim>\<open>createBlob\<close>.
\<close>

definition connectPlayer ::
  "(real \<Rightarrow> string) \<Rightarrow> (nat \<Rightarrow> int) \<Rightarrow> (nat \<Rightarrow> real) \<Rightarrow> string \<Rightarrow> World
     \<Rightarrow> string \<times> World \<times> GameState" where
  "connectPlayer fmt clk rnd nm w =
     (let pid = nm @ ''-'' @ fmt (of_int (clk 0));
          names' = AList.update pid nm (playerNames w);
          blob = createBlob fmt (\<lambda>k. clk (Suc k)) rnd pid nm;
          w' = w\<lparr> blobs := AList.update (blob_id blob) blob (blobs w), playerNames := names' \<rparr>
      in (pid, w', pushState w'))"

text \<open>
  \<^verbatim>\<open>disconnectPlayer\<close>: for each value of the map owned by the player, delete the key
  that is the blob's id.
\<close>

definition disconnectPlayer :: "string \<Rightarrow> World \<Rightarrow> World" where
  "disconnectPlayer pid w =
     w\<lparr> blobs := foldl (\<lambda>m b. if playerId b = pid then AList.delete (blob_id b) m else m)
                    (blobs w) (map snd (blobs w)),
        playerNames := AList.delete pid (playerNames w) \<rparr>"

text \<open>The end of the \<^verbatim>\<open>forEach\<close> body of \<^verbatim>\<open>updatePlayerInput\<close>, once the target is known.\<close>

definition steer :: "Vector \<Rightarrow> Blob \<Rightarrow> Blob" where
  "steer targetPos p_blob =
     (let distToTarget = distance (pos p_blob) targetPos in
      if distToTarget > 1 then
        (let angle = atan2 (vec_y targetPos - vec_y (pos p_blob))
                           (vec_x targetPos - vec_x (pos p_blob));
             speed = min (distToTarget * 0.1) (5 / (1 + mass p_blob * 0.01));
             targetVx = cos angle * speed;
             targetVy = sin angle * speed
         in p_blob\<lparr> velocity := \<lparr> vec_x = lerp (vec_x (velocity p_blob)) targetVx 0.15,
                                    vec_y = lerp (vec_y (velocity p_blob)) targetVy 0.15 \<rparr> \<rparr>)
      else p_blob)"

text \<open>
  \<^verbatim>\<open>updatePlayerInput\<close>. The player's blobs are paired with their position in the map,
  so that the velocity written to a sorted blob lands on the same object of the map.
  \<open>clk index\<close> is the clock reading taken for the blob at \<open>index\<close> of the sorted array.
\<close>

definition updatePlayerInput ::
  "(nat \<Rightarrow> int) \<Rightarrow> string \<Rightarrow> Vector \<Rightarrow> WindowSize \<Rightarrow> Camera \<Rightarrow> World \<Rightarrow> World" where
  "updatePlayerInput clk pid mousePos windowSize camera w =
     (let playerBlobs =
            sort_key (\<lambda>(n, b). - mass b)
              (filter (\<lambda>(n, b). playerId b = pid) (enumerate 0 (map snd (blobs w))))
      in if length playerBlobs = 0 then w
      else
        let mainBlob = snd (hd playerBlobs);
            mainBlobScreenPos =
              \<lparr> vec_x = (vec_x (pos mainBlob) - cam_x camera) * zoom camera + width windowSize / 2,
                vec_y = (vec_y (pos mainBlob) - cam_y camera) * zoom camera + height windowSize / 2 \<rparr>;
            mainBlobScreenRadius = radius mainBlob * zoom camera;
            isMouseOverMainBlob = (distance mousePos mainBlobScreenPos < mainBlobScreenRadius);
            mouseInWorld =
              \<lparr> vec_x = vec_x (pos mainBlob) + (vec_x mousePos - width windowSize / 2) / zoom camera,
                vec_y = vec_y (pos mainBlob) + (vec_y mousePos - height windowSize / 2) / zoom camera \<rparr>;
            targetPos = (\<lambda>index p_blob.
              if index = 0 then mouseInWorld
              else if isMouseOverMainBlob then pos mainBlob
              else
                (let orbitDistance = radius mainBlob + radius p_blob + 15;
                     angleOffset = real_of_int (clk index) / 3000;
                     angle = ((real index - 1) / (real (length playerBlobs) - 1)) * 2 * pi
                             + angleOffset
                 in \<lparr> vec_x = vec_x (pos mainBlob) + cos angle * orbitDistance,
                      vec_y = vec_y (pos mainBlob) + sin angle * orbitDistance \<rparr>))
        in w\<lparr> blobs :=
                foldl (\<lambda>m (index, n, p_blob). m[n := (fst (m ! n), steer (targetPos index p_blob) p_blob)])
                  (blobs w) (enumerate 0 playerBlobs) \<rparr>)"

text \<open>
  One split of \<^verbatim>\<open>playerSplit\<close>: the halved original and the ejected sibling. \<open>now\<close>
  and \<open>r\<close> are the clock reading and the random draw that go into the sibling's id.
\<close>

definition split_blob ::
  "(real \<Rightarrow> string) \<Rightarrow> int \<Rightarrow> Vector \<Rightarrow> WindowSize \<Rightarrow> Camera \<Rightarrow> int \<Rightarrow> real \<Rightarrow> Blob
     \<Rightarrow> Blob \<times> Blob" where
  "split_blob fmt recombineTime mousePos windowSize camera now r p_blob =
     (let halved = p_blob\<lparr> mass := mass p_blob / 2,
                           radius := massToRadius (mass p_blob / 2),
                           canRecombineTime := recombineTime \<rparr>;
          mouseInWorld =
            \<lparr> vec_x = vec_x (pos halved) + (vec_x mousePos - width windowSize / 2) / zoom camera,
              vec_y = vec_y (pos halved) + (vec_y mousePos - height windowSize / 2) / zoom camera \<rparr>;
          angle = atan2 (vec_y mouseInWorld - vec_y (pos halved))
                        (vec_x mouseInWorld - vec_x (pos halved));
          ejectionDistance = radius halved * 2.5;
          newBlob = halved\<lparr>
            blob_id := playerId halved @ ''-split-'' @ fmt (of_int now) @ ''-'' @ fmt r,
            mass := mass halved,
            radius := radius halved,
            pos := \<lparr> vec_x = vec_x (pos halved) + cos angle * ejectionDistance,
                     vec_y = vec_y (pos halved) + sin angle * ejectionDistance \<rparr>,
            velocity := \<lparr> vec_x = vec_x (velocity halved) + cos angle * SPLIT_EJECT_SPEED,
                          vec_y = vec_y (velocity halved) + sin angle * SPLIT_EJECT_SPEED \<rparr>,
            canRecombineTime := recombineTime \<rparr>
      in (halved, newBlob))"

text \<open>
  \<^verbatim>\<open>playerBlobs.forEach\<close> of \<^verbatim>\<open>playerSplit\<close>, walking the map's entries: the entries of
  the player are the elements of \<^verbatim>\<open>playerBlobs\<close>, in the same order. \<open>n\<close> is
  \<^verbatim>\<open>playerBlobs.length\<close>; \<open>mk k\<close> splits a blob when \<open>k\<close> siblings exist already.
\<close>

fun split_loop ::
  "(nat \<Rightarrow> Blob \<Rightarrow> Blob \<times> Blob) \<Rightarrow> string \<Rightarrow> nat \<Rightarrow> nat \<Rightarrow> (string \<times> Blob) list \<Rightarrow> Blob list
     \<Rightarrow> (string \<times> Blob) list \<times> Blob list" where
  "split_loop mk pid n maxBlobs [] newBlobs = ([], newBlobs)"
| "split_loop mk pid n maxBlobs ((k, p_blob) # rest) newBlobs =
     (if playerId p_blob = pid \<and> mass p_blob \<ge> MIN_MASS_TO_SPLIT
           \<and> n + length newBlobs < maxBlobs
      then (let (halved, newBlob) = mk (length newBlobs) p_blob;
                (rest', newBlobs') = split_loop mk pid n maxBlobs rest (newBlobs @ [newBlob])
            in ((k, halved) # rest', newBlobs'))
      else (let (rest', newBlobs') = split_loop mk pid n maxBlobs rest newBlobs
            in ((k, p_blob) # rest', newBlobs')))"

text \<open>
  \<^verbatim>\<open>playerSplit\<close>. \<open>clk 0\<close> is the reading behind \<^verbatim>\<open>recombineTime\<close>; the sibling number
  \<open>k\<close> takes \<open>clk (k + 1)\<close> and \<open>rnd k\<close> for its id.
\<close>

definition playerSplit ::
  "(real \<Rightarrow> string) \<Rightarrow> (nat \<Rightarrow> int) \<Rightarrow> (nat \<Rightarrow> real) \<Rightarrow> string \<Rightarrow> Vector \<Rightarrow> WindowSize \<Rightarrow> Camera
     \<Rightarrow> World \<Rightarrow> World" where
  "playerSplit fmt clk rnd pid mousePos windowSize camera w =
     (let playerBlobs = filter (\<lambda>b. playerId b = pid) (map snd (blobs w));
          totalPlayerMass = foldl (\<lambda>sum b. sum + mass b) 0 playerBlobs;
          maxBlobs = getMaxBlobsForMass totalPlayerMass
      in if length playerBlobs \<ge> maxBlobs then w
      else
        let recombineTime = clk 0 + RECOMBINE_DELAY_MS;
            (updated, newBlobs) =
               split_loop (\<lambda>k. split_blob fmt recombineTime mousePos windowSize camera
                                 (clk (Suc k)) (rnd k))
                 pid (length playerBlobs) maxBlobs (blobs w) []
        in w\<lparr> blobs := foldl (\<lambda>m b. AList.update (blob_id b) b m) updated newBlobs \<rparr>)"

subsection \<open>Notions used by the properties\<close>

text \<open>The pairs the two loops visit, in the order they visit them.\<close>

definition pairs :: "nat \<Rightarrow> (nat \<times> nat) list" where
  "pairs n = concat (map (\<lambda>i. map (Pair i) [i + 1..<n]) [0..<n])"

definition run_pairs ::
  "(nat \<Rightarrow> nat \<Rightarrow> int) \<Rightarrow> (nat \<times> nat) list \<Rightarrow> Blob list \<times> string list
     \<Rightarrow> Blob list \<times> string list" where
  "run_pairs clk ps st = foldl (\<lambda>st' (i, j). resolve_pair (clk i j) i j st') st ps"

text \<open>
  \<open>same_but_size b' b\<close>: the blob \<open>b'\<close> is \<open>b\<close> except, at most, for its mass and
  its radius.
\<close>

definition same_but_size :: "Blob \<Rightarrow> Blob \<Rightarrow> bool" where
  "same_but_size b' b \<longleftrightarrow> b' = b\<lparr> mass := mass b', radius := radius b' \<rparr>"

text \<open>Every entry of the map is stored under its blob's id, as every \<^verbatim>\<open>blobs.set\<close> does.\<close>

definition keyed :: "World \<Rightarrow> bool" where
  "keyed w \<longleftrightarrow> (\<forall>(k, b) \<in> set (blobs w). k = blob_id b)"

text \<open>The blobs a player owns, in the order of the map: \<^verbatim>\<open>playerBlobs\<close>.\<close>

definition owned :: "string \<Rightarrow> World \<Rightarrow> Blob list" where
  "owned pid w = filter (\<lambda>b. playerId b = pid) (map snd (blobs w))"

text \<open>The stored radius of a blob is the one its stored mass gives; so for a whole world.\<close>

definition radius_ok :: "Blob \<Rightarrow> bool" where
  "radius_ok b \<longleftrightarrow> radius b = massToRadius (mass b)"

definition radius_inv :: "World \<Rightarrow> bool" where
  "radius_inv w \<longleftrightarrow> (\<forall>b \<in> snd ` set (blobs w). radius_ok b)"

text \<open>The spec's summed mass of a player: the sum of the masses of the blobs it owns.\<close>

definition player_mass :: "Blob list \<Rightarrow> string \<Rightarrow> real" where
  "player_mass bs pid = sum_list (map mass (filter (\<lambda>b. playerId b = pid) bs))"

text \<open>The elements of a list in the order of their first occurrence.\<close>

definition first_seen :: "string list \<Rightarrow> string list" where
  "first_seen xs = rev (remdups (rev xs))"

text \<open>
  The pair step with the sources of the thresholds made explicit, for comparing the
  code with the spec's wording: the distance is taken between \<open>posOf i\<close> and
  \<open>posOf j\<close>, and the radius of blob \<open>k\<close> in a test is \<open>radiusOf bs k\<close>, where \<open>bs\<close> is the
  current array. Everything else is as in \<open>resolve_pair\<close>.
\<close>

definition resolve_pair_reading ::
  "(nat \<Rightarrow> Vector) \<Rightarrow> (Blob list \<Rightarrow> nat \<Rightarrow> real) \<Rightarrow> int \<Rightarrow> nat \<Rightarrow> nat
     \<Rightarrow> Blob list \<times> string list \<Rightarrow> Blob list \<times> string list" where
  "resolve_pair_reading posOf radiusOf now i j st =
     (let bs = fst st; consumed = snd st; b1 = bs ! i; b2 = bs ! j in
      if blob_id b1 \<in> set consumed \<or> blob_id b2 \<in> set consumed then st
      else
        let dist = distance (posOf i) (posOf j) in
        if playerId b1 = playerId b2 \<and> playerId b1 \<noteq> [] then
          (if now > canRecombineTime b1 \<and> now > canRecombineTime b2 then
             (if dist < radiusOf bs i \<or> dist < radiusOf bs j
              then (absorb i j bs, set_add (blob_id b2) consumed)
              else st)
           else st)
        else
          (if mass b1 > mass b2 * 1.1 \<and> dist < radiusOf bs i - radiusOf bs j * 0.5
           then (absorb i j bs, set_add (blob_id b2) consumed)
           else if mass b2 > mass b1 * 1.1 \<and> dist < radiusOf bs j - radiusOf bs i * 0.5
           then (absorb j i bs, set_add (blob_id b1) consumed)
           else st))"

definition scan_reading ::
  "(nat \<Rightarrow> Vector) \<Rightarrow> (Blob list \<Rightarrow> nat \<Rightarrow> real) \<Rightarrow> (nat \<Rightarrow> nat \<Rightarrow> int) \<Rightarrow> Blob list
     \<Rightarrow> Blob list \<times> string list" where
  "scan_reading posOf radiusOf clk allBlobs =
     foldl (\<lambda>st (i, j). resolve_pair_reading posOf radiusOf (clk i j) i j st)
       (allBlobs, []) (pairs (length allBlobs))"

text \<open>
  The scan as the spec words it: the threshold tests of every pair read the position
  and the radius each blob had before the scan (the snapshot); masses are the current
  ones.
\<close>

definition blob_scan_snapshot :: "(nat \<Rightarrow> nat \<Rightarrow> int) \<Rightarrow> Blob list \<Rightarrow> Blob list \<times> string list" where
  "blob_scan_snapshot clk allBlobs =
     scan_reading (\<lambda>k. pos (allBlobs ! k)) (\<lambda>cur k. radius (allBlobs ! k)) clk allBlobs"

subsection \<open>Example data\<close>

text \<open>A blob whose radius fits its mass, at rest, eligible to recombine since time 0.\<close>

definition ex_blob :: "string \<Rightarrow> string \<Rightarrow> real \<Rightarrow> real \<Rightarrow> real \<Rightarrow> Blob" where
  "ex_blob bid pid px py m =
     \<lparr> blob_id = bid, pos = \<lparr> vec_x = px, vec_y = py \<rparr>, mass = m, radius = massToRadius m,
       color = ''red'', velocity = \<lparr> vec_x = 0, vec_y = 0 \<rparr>, name = pid,
       canRecombineTime = 0, playerId = pid \<rparr>"

text \<open>A world of the given blobs, each under its id, with no food.\<close>

definition ex_world :: "Blob list \<Rightarrow> World" where
  "ex_world bs = \<lparr> blobs = map (\<lambda>b. (blob_id b, b)) bs, food = [], messages = [], playerNames = [] \<rparr>"

text \<open>
  Two overlapping pieces of player A (masses 16 and 384) and a blob of player C (mass
  20) at distance 50 from them.
\<close>

definition ex_cascade :: "Blob list" where
  "ex_cascade = [ex_blob ''a1'' ''A'' 100 100 16, ex_blob ''a2'' ''A'' 100 100 384,
                 ex_blob ''c1'' ''C'' 150 100 20]"

text \<open>
  A fresh server whose 200 pellets all lie at the origin (every random draw is 0), with
  one blob of mass 20 at the origin.
\<close>

definition ex_feeding_world :: World where
  "ex_feeding_world =
     (GameServer_new (\<lambda>r. ''0'') (\<lambda>k. 0))\<lparr> blobs := [(''a1'', ex_blob ''a1'' ''A'' 0 0 20)] \<rparr>"

text \<open>Player A with mass 20.25 joined before player B with mass 20.5.\<close>

definition ex_tie_world :: World where
  "ex_tie_world = ex_world [ex_blob ''a1'' ''A'' 100 100 20.25, ex_blob ''b1'' ''B'' 2000 2000 20.5]"

text \<open>Player A with two blobs (20.25 and 5) around the one blob of player B (30).\<close>

definition ex_rank_world :: World where
  "ex_rank_world = ex_world [ex_blob ''a1'' ''A'' 100 100 20.25, ex_blob ''b1'' ''B'' 2000 2000 30,
                             ex_blob ''a2'' ''A'' 500 500 5]"

section \<open>Properties\<close>

subsection \<open>Geometry\<close>

lemma distance_commute: "distance p q = distance q p"
  by (simp add: distance_def power2_commute)

text \<open>Bounds on the radius from \<open>2 \<le> pi < 4\<close>, enough to decide the examples.\<close>

lemma massToRadius_lower: "0 \<le> c \<Longrightarrow> 4 * c\<^sup>2 \<le> m \<Longrightarrow> 0 < m \<Longrightarrow> c * 10 < massToRadius m"
proof -
  assume c: "0 \<le> c" and m: "4 * c\<^sup>2 \<le> m" and pos: "0 < m"
  have "m / 4 < m / pi"
    by (rule divide_strict_left_mono [OF pi_less_4 pos]) simp
  moreover have "c\<^sup>2 \<le> m / 4" using m by simp
  ultimately have "c\<^sup>2 < m / pi" by linarith
  then have "sqrt (c\<^sup>2) < sqrt (m / pi)" by (simp only: real_sqrt_less_iff)
  then show ?thesis using c by (simp add: massToRadius_def)
qed

lemma massToRadius_upper: "0 \<le> c \<Longrightarrow> m \<le> 2 * c\<^sup>2 \<Longrightarrow> 0 \<le> m \<Longrightarrow> massToRadius m \<le> c * 10"
proof -
  assume c: "0 \<le> c" and m: "m \<le> 2 * c\<^sup>2" and pos: "0 \<le> m"
  have "m / pi \<le> m / 2"
    by (rule divide_left_mono [OF pi_ge_two pos]) simp
  moreover have "m / 2 \<le> c\<^sup>2" using m by simp
  ultimately have "m / pi \<le> c\<^sup>2" by linarith
  then have "sqrt (m / pi) \<le> sqrt (c\<^sup>2)" by (simp only: real_sqrt_le_iff)
  then show ?thesis using c by (simp add: massToRadius_def)
qed

lemma massToRadius_nonneg: "0 \<le> m \<Longrightarrow> 0 \<le> massToRadius m"
  by (simp add: massToRadius_def)

lemma radius_110: "50 < massToRadius 110"
  using massToRadius_lower [of 5 110] by simp

lemma radius_50: "massToRadius 50 \<le> 50"
  using massToRadius_upper [of 5 50] by simp

subsection \<open>One pair of the scan\<close>

lemma set_add_set: "set (set_add s cs) = insert s (set cs)"
  by (auto simp: set_add_def)

lemma resolve_pair_cases:
  "resolve_pair now i j st = st
   \<or> resolve_pair now i j st = (absorb i j (fst st), set_add (blob_id (fst st ! j)) (snd st))
   \<or> resolve_pair now i j st = (absorb j i (fst st), set_add (blob_id (fst st ! i)) (snd st))"
  by (simp add: resolve_pair_def Let_def)

text \<open>
  C5. For two blobs of different owners, the pair changes the state only by one blob
  absorbing the other, and then the absorbing blob's mass exceeds the other's times
  1.1 and the distance of the centres is below its radius minus half the other's
  radius. When neither blob meets both conditions the state is unchanged: nothing is
  consumed.
\<close>

theorem engulfment_needs_margin_and_depth:
  assumes "playerId (bs ! i) \<noteq> playerId (bs ! j)"
  shows "(resolve_pair now i j (bs, cs) \<noteq> (bs, cs) \<longrightarrow>
            (mass (bs ! i) > mass (bs ! j) * 1.1
              \<and> distance (pos (bs ! i)) (pos (bs ! j)) < radius (bs ! i) - radius (bs ! j) * 0.5
              \<and> resolve_pair now i j (bs, cs) = (absorb i j bs, set_add (blob_id (bs ! j)) cs))
          \<or> (mass (bs ! j) > mass (bs ! i) * 1.1
              \<and> distance (pos (bs ! j)) (pos (bs ! i)) < radius (bs ! j) - radius (bs ! i) * 0.5
              \<and> resolve_pair now i j (bs, cs) = (absorb j i bs, set_add (blob_id (bs ! i)) cs)))
       \<and> (\<not> (mass (bs ! i) > mass (bs ! j) * 1.1
              \<and> distance (pos (bs ! i)) (pos (bs ! j)) < radius (bs ! i) - radius (bs ! j) * 0.5)
          \<and> \<not> (mass (bs ! j) > mass (bs ! i) * 1.1
              \<and> distance (pos (bs ! j)) (pos (bs ! i)) < radius (bs ! j) - radius (bs ! i) * 0.5)
          \<longrightarrow> resolve_pair now i j (bs, cs) = (bs, cs))"
  using assms unfolding resolve_pair_def Let_def distance_commute [of "pos (bs ! j)"]
  by simp

text \<open>
  The spec's scenario: mass 110 at distance 5 from mass 50 consumes it; two blobs of
  mass 50 leave each other alone.
\<close>

theorem engulfment_needs_margin_and_depth_witness:
  "resolve_pair 0 0 1 ([ex_blob ''a1'' ''A'' 0 0 110, ex_blob ''b1'' ''B'' 5 0 50], [])
     = (absorb 0 1 [ex_blob ''a1'' ''A'' 0 0 110, ex_blob ''b1'' ''B'' 5 0 50], [''b1''])
   \<and> resolve_pair 0 0 1 ([ex_blob ''a1'' ''A'' 0 0 50, ex_blob ''b1'' ''B'' 5 0 50], [])
     = ([ex_blob ''a1'' ''A'' 0 0 50, ex_blob ''b1'' ''B'' 5 0 50], [])"
proof -
  let ?bs = "[ex_blob ''a1'' ''A'' 0 0 110, ex_blob ''b1'' ''B'' 5 0 50]"
  let ?cs = "[ex_blob ''a1'' ''A'' 0 0 50, ex_blob ''b1'' ''B'' 5 0 50]"
  have own: "playerId (?bs ! 0) \<noteq> playerId (?bs ! 1)" "playerId (?cs ! 0) \<noteq> playerId (?cs ! 1)"
    by (simp_all add: ex_blob_def)
  have depth: "distance (pos (?bs ! 0)) (pos (?bs ! 1)) < radius (?bs ! 0) - radius (?bs ! 1) * 0.5"
    using radius_110 radius_50 by (simp add: ex_blob_def distance_def)
  have fired: "resolve_pair 0 0 1 (?bs, []) \<noteq> (?bs, [])"
    using depth by (simp add: resolve_pair_def Let_def ex_blob_def set_add_def)
  have nomargin: "\<not> mass (?cs ! 0) > mass (?cs ! 1) * 1.1" "\<not> mass (?cs ! 1) > mass (?cs ! 0) * 1.1"
    by (simp_all add: ex_blob_def)
  have rev: "\<not> mass (?bs ! 1) > mass (?bs ! 0) * 1.1"
    by (simp add: ex_blob_def)
  have id: "set_add (blob_id (?bs ! 1)) [] = [''b1'']"
    by (simp add: set_add_def ex_blob_def)
  from engulfment_needs_margin_and_depth [OF own(1), of 0 "[]"] fired rev id
  have 1: "resolve_pair 0 0 1 (?bs, []) = (absorb 0 1 ?bs, [''b1''])" by simp
  from engulfment_needs_margin_and_depth [OF own(2), of 0 "[]"] nomargin
  have 2: "resolve_pair 0 0 1 (?cs, []) = (?cs, [])" by blast
  from 1 2 show ?thesis by simp
qed

subsection \<open>What the scan leaves alone\<close>

lemma same_but_size_refl: "same_but_size b b"
  by (simp add: same_but_size_def)

lemma same_but_size_trans: "same_but_size c b \<Longrightarrow> same_but_size b a \<Longrightarrow> same_but_size c a"
  by (cases a, cases b, cases c) (simp add: same_but_size_def)

lemma same_but_size_fields:
  "same_but_size b' b \<Longrightarrow>
     blob_id b' = blob_id b \<and> pos b' = pos b \<and> color b' = color b \<and> velocity b' = velocity b
     \<and> name b' = name b \<and> canRecombineTime b' = canRecombineTime b \<and> playerId b' = playerId b"
  unfolding same_but_size_def by (cases b, cases b') simp

lemma absorb_frame: "list_all2 same_but_size (absorb w l bs) bs"
  unfolding absorb_def
  by (cases "w < length bs")
     (auto simp: list_all2_conv_all_nth nth_list_update same_but_size_def)

lemma resolve_pair_frame: "list_all2 same_but_size (fst (resolve_pair now i j st)) (fst st)"
  using resolve_pair_cases [of now i j st] absorb_frame
  by (auto simp: list_all2_conv_all_nth same_but_size_refl)

lemma list_all2_same_trans:
  "list_all2 same_but_size cs bs \<Longrightarrow> list_all2 same_but_size bs as \<Longrightarrow> list_all2 same_but_size cs as"
  by (rule list_all2_trans [of same_but_size same_but_size same_but_size])
     (auto intro: same_but_size_trans)

lemma run_pairs_snoc: "run_pairs clk (ps @ [(i, j)]) st = resolve_pair (clk i j) i j (run_pairs clk ps st)"
  by (simp add: run_pairs_def)

lemma run_pairs_append: "run_pairs clk (ps @ qs) st = run_pairs clk qs (run_pairs clk ps st)"
  by (simp add: run_pairs_def)

lemma run_pairs_Nil: "run_pairs clk [] st = st"
  by (simp add: run_pairs_def)

lemma run_pairs_frame: "list_all2 same_but_size (fst (run_pairs clk ps st)) (fst st)"
proof (induction ps rule: rev_induct)
  case Nil
  show ?case by (simp add: run_pairs_Nil list_all2_conv_all_nth same_but_size_refl)
next
  case (snoc p ps)
  obtain i j where p: "p = (i, j)" by (cases p)
  show ?case unfolding p run_pairs_snoc
    by (rule list_all2_same_trans [OF resolve_pair_frame snoc.IH])
qed

lemma resolve_pair_consumed_mono: "set (snd st) \<subseteq> set (snd (resolve_pair now i j st))"
  using resolve_pair_cases [of now i j st] by (auto simp: set_add_set)

lemma run_pairs_consumed_mono: "set (snd st) \<subseteq> set (snd (run_pairs clk ps st))"
proof (induction ps rule: rev_induct)
  case Nil
  show ?case by (simp add: run_pairs_Nil)
next
  case (snoc p ps)
  obtain i j where p: "p = (i, j)" by (cases p)
  show ?case unfolding p run_pairs_snoc
    using snoc.IH resolve_pair_consumed_mono by blast
qed

lemma resolve_pair_other:
  "k \<noteq> i \<Longrightarrow> k \<noteq> j \<Longrightarrow> fst (resolve_pair now i j st) ! k = fst st ! k"
  using resolve_pair_cases [of now i j st] by (auto simp: absorb_def)

lemma blob_scan_pairs: "blob_scan clk bs = run_pairs clk (pairs (length bs)) (bs, [])"
proof -
  have inner: "\<And>st i n. foldl (\<lambda>st' j. resolve_pair (clk i j) i j st') st [i + 1..<n]
                  = run_pairs clk (map (Pair i) [i + 1..<n]) st"
    by (simp add: run_pairs_def foldl_map)
  have outer: "\<And>st is n. foldl (\<lambda>st i. run_pairs clk (map (Pair i) [i + 1..<n]) st) st is
                  = run_pairs clk (concat (map (\<lambda>i. map (Pair i) [i + 1..<n]) is)) st"
    subgoal for st "is" n
      by (induction "is" arbitrary: st) (simp_all add: run_pairs_Nil run_pairs_append)
    done
  show ?thesis
    unfolding blob_scan_def inner outer pairs_def ..
qed

lemma pairs_set: "set (pairs n) = {(i, j). i < j \<and> j < n}"
  by (fastforce simp: pairs_def)

lemma pairs_distinct: "distinct (pairs n)"
  unfolding pairs_def
proof (rule distinct_concat)
  have "x = y" if "x < n" "y < n" "map (Pair x) [Suc x..<n] = map (Pair y) [Suc y..<n]" for x y
  proof -
    from that(3) have "length (map (Pair x) [Suc x..<n]) = length (map (Pair y) [Suc y..<n])"
      by simp
    with that(1,2) show ?thesis by simp
  qed
  then show "distinct (map (\<lambda>i. map (Pair i) [i + 1..<n]) [0..<n])"
    by (auto simp: distinct_map inj_on_def)
qed (auto simp: distinct_map inj_on_def)

subsection \<open>The tick around the scan\<close>

lemma eat_food_frame: "same_but_size (fst (eat_food b fd)) b"
proof (induction fd arbitrary: b)
  case Nil
  show ?case by (simp add: same_but_size_refl)
next
  case (Cons f fs)
  have step: "same_but_size (b\<lparr> mass := m, radius := r \<rparr>) b" for m r
    by (simp add: same_but_size_def)
  show ?case
    using Cons.IH [of b] same_but_size_trans [OF Cons.IH step]
    by (simp add: split_beta)
qed

lemma eat_all_frame: "list_all2 same_but_size (fst (eat_all bs fd)) bs"
  by (induction bs arbitrary: fd) (simp_all add: split_beta eat_food_frame)

lemma move_blob_fields:
  "blob_id (move_blob b) = blob_id b \<and> playerId (move_blob b) = playerId b
   \<and> canRecombineTime (move_blob b) = canRecombineTime b
   \<and> mass (move_blob b) = mass b \<and> radius (move_blob b) = radius b"
  by (simp add: move_blob_def)

lemma length_scan_input: "length (scan_input w) = length (blobs w)"
  using eat_all_frame [of "map (move_blob \<circ> snd) (blobs w)" "food w"]
  by (simp add: scan_input_def list_all2_lengthD)

lemma scan_input_nth:
  assumes "n < length (blobs w)"
  shows "blob_id (scan_input w ! n) = blob_id (snd (blobs w ! n))"
    and "playerId (scan_input w ! n) = playerId (snd (blobs w ! n))"
    and "canRecombineTime (scan_input w ! n) = canRecombineTime (snd (blobs w ! n))"
proof -
  have "same_but_size (scan_input w ! n) (move_blob (snd (blobs w ! n)))"
    using list_all2_nthD2 [OF eat_all_frame [of "map (move_blob \<circ> snd) (blobs w)" "food w"], of n] assms
    by (simp add: scan_input_def)
  from same_but_size_fields [OF this]
  show "blob_id (scan_input w ! n) = blob_id (snd (blobs w ! n))"
    and "playerId (scan_input w ! n) = playerId (snd (blobs w ! n))"
    and "canRecombineTime (scan_input w ! n) = canRecombineTime (snd (blobs w ! n))"
    by (simp_all add: move_blob_fields)
qed

lemma tick_blobs:
  "blobs (fst (tick fmt clk rnd w))
     = fold AList.delete (snd (blob_scan clk (scan_input w)))
         (zip (map fst (blobs w)) (fst (blob_scan clk (scan_input w))))"
  by (simp add: tick_def scan_input_def Let_def split_beta)

lemma tick_food:
  "food (fst (tick fmt clk rnd w))
     = replenish fmt rnd 0 (snd (eat_all (map (move_blob \<circ> snd) (blobs w)) (food w)))"
  by (simp add: tick_def Let_def split_beta)

lemma fold_delete_set: "set (fold AList.delete ks m) = {p \<in> set m. fst p \<notin> set ks}"
  by (induction ks arbitrary: m) (auto simp: AList.delete_eq)

lemma length_run_pairs: "length (fst (run_pairs clk ps st)) = length (fst st)"
  using run_pairs_frame [of clk ps st] by (simp add: list_all2_lengthD)

lemma tick_entry:
  assumes "(k, b) \<in> set (blobs (fst (tick fmt clk rnd w)))"
  shows "\<exists>n < length (blobs w). k = fst (blobs w ! n) \<and> b = fst (blob_scan clk (scan_input w)) ! n
           \<and> k \<notin> set (snd (blob_scan clk (scan_input w)))"
proof -
  from assms have z: "(k, b) \<in> set (zip (map fst (blobs w)) (fst (blob_scan clk (scan_input w))))"
    and nk: "k \<notin> set (snd (blob_scan clk (scan_input w)))"
    by (auto simp: tick_blobs fold_delete_set)
  have len: "length (fst (blob_scan clk (scan_input w))) = length (blobs w)"
    by (simp add: blob_scan_pairs length_run_pairs length_scan_input)
  from z len nk show ?thesis
    by (auto simp: in_set_zip)
qed

lemma tick_ids:
  assumes "keyed w" and "(k, b) \<in> set (blobs (fst (tick fmt clk rnd w)))"
  shows "blob_id b = k"
proof -
  from tick_entry [OF assms(2)] obtain n where n: "n < length (blobs w)"
    and k: "k = fst (blobs w ! n)" and b: "b = fst (blob_scan clk (scan_input w)) ! n"
    by blast
  have "same_but_size b (scan_input w ! n)"
    using run_pairs_frame [of clk "pairs (length (scan_input w))" "(scan_input w, [])"] n
    by (simp add: b blob_scan_pairs list_all2_conv_all_nth length_scan_input)
  then have "blob_id b = blob_id (scan_input w ! n)"
    by (simp add: same_but_size_fields)
  also have "\<dots> = blob_id (snd (blobs w ! n))" by (rule scan_input_nth(1) [OF n])
  also have "\<dots> = k" using assms(1) nth_mem [OF n] unfolding k
    by (auto simp: keyed_def case_prod_unfold)
  finally show ?thesis .
qed

lemma scan_split:
  assumes "m < length (pairs n)" and "pairs n ! m = (i, j)"
  shows "run_pairs clk (pairs n) st0
          = run_pairs clk (drop (Suc m) (pairs n))
              (resolve_pair (clk i j) i j (run_pairs clk (take m (pairs n)) st0))"
proof -
  have "pairs n = take m (pairs n) @ [(i, j)] @ drop (Suc m) (pairs n)"
    using id_take_nth_drop [OF assms(1)] assms(2) by simp
  then have "run_pairs clk (pairs n) st0
      = run_pairs clk (take m (pairs n) @ [(i, j)] @ drop (Suc m) (pairs n)) st0" by simp
  then show ?thesis
    by (simp only: run_pairs_append) (simp add: run_pairs_def)
qed

lemma pairs_nth:
  assumes "m < length (pairs n)" and "pairs n ! m = (i, j)"
  shows "i < j \<and> j < n"
proof -
  have "(i, j) \<in> set (pairs n)" using nth_mem [OF assms(1)] assms(2) by simp
  then show ?thesis by (simp add: pairs_set)
qed


subsection \<open>Facts about the example data\<close>

lemma pairs_2: "pairs 2 = [(0, 1)]"
  by (simp add: pairs_def numeral_2_eq_2)

lemma pairs_3: "pairs 3 = [(0, 1), (0, 2), (1, 2)]"
  by (simp add: pairs_def numeral_3_eq_3 upt_rec)

lemma keyed_ex_world: "keyed (ex_world bs)"
  by (auto simp: keyed_def ex_world_def)

lemma move_ex_blob:
  "0 \<le> px \<Longrightarrow> px \<le> 3000 \<Longrightarrow> 0 \<le> py \<Longrightarrow> py \<le> 3000 \<Longrightarrow>
     move_blob (ex_blob bid pid px py m) = ex_blob bid pid px py m"
  by (simp add: move_blob_def ex_blob_def WORLD_WIDTH_def WORLD_HEIGHT_def)

lemma scan_input_ex_world: "scan_input (ex_world bs) = map move_blob bs"
proof -
  have "fst (eat_all xs []) = xs" for xs
    by (induction xs) (simp_all add: split_beta)
  then show ?thesis by (simp add: scan_input_def ex_world_def comp_def)
qed


subsection \<open>Engulfment conserves mass\<close>

text \<open>
  C1. Take any pair \<open>(i, j)\<close> of the tick's scan, number \<open>m\<close> in the order of the scan,
  and the state \<open>st\<close> the scan has reached before it. If the two blobs have different
  owners and the pair changes the state, then one of them (\<open>wi\<close>) absorbs the other
  (\<open>li\<close>): right after the pair its mass is its mass before plus the other's mass before,
  and after the tick no entry of the world is stored under the other's id or holds a blob
  with that id.
\<close>

theorem engulfment_conserves_mass:
  assumes keyed: "keyed w"
    and m: "m < length (pairs (length (blobs w)))"
    and ij: "pairs (length (blobs w)) ! m = (i, j)"
    and st: "st = run_pairs clk (take m (pairs (length (blobs w)))) (scan_input w, [])"
    and owners: "playerId (fst st ! i) \<noteq> playerId (fst st ! j)"
    and fired: "resolve_pair (clk i j) i j st \<noteq> st"
  shows "\<exists>wi li. ((wi = i \<and> li = j) \<or> (wi = j \<and> li = i))
           \<and> resolve_pair (clk i j) i j st
               = (absorb wi li (fst st), set_add (blob_id (fst st ! li)) (snd st))
           \<and> mass (fst (resolve_pair (clk i j) i j st) ! wi) = mass (fst st ! wi) + mass (fst st ! li)
           \<and> blob_id (fst st ! li) \<notin> fst ` set (blobs (fst (tick fmt clk rnd w)))
           \<and> blob_id (fst st ! li) \<notin> (blob_id \<circ> snd) ` set (blobs (fst (tick fmt clk rnd w)))"
proof -
  let ?n = "length (blobs w)"
  let ?st' = "resolve_pair (clk i j) i j st"
  let ?w' = "fst (tick fmt clk rnd w)"
  have len: "length (fst st) = ?n"
    by (simp add: st length_run_pairs length_scan_input)
  from pairs_nth [OF m ij] have lt: "i < j" "j < ?n" by simp_all
  from resolve_pair_cases [of "clk i j" i j st] fired
  obtain wi li where wl: "(wi = i \<and> li = j) \<or> (wi = j \<and> li = i)"
    and res: "?st' = (absorb wi li (fst st), set_add (blob_id (fst st ! li)) (snd st))"
    by blast
  from wl lt len have wlt: "wi < length (fst st)" by auto
  have massw: "mass (fst ?st' ! wi) = mass (fst st ! wi) + mass (fst st ! li)"
    using wlt by (simp add: res absorb_def)
  have "blob_id (fst st ! li) \<in> set (snd ?st')"
    by (simp add: res set_add_set)
  moreover have "blob_scan clk (scan_input w) = run_pairs clk (drop (Suc m) (pairs ?n)) ?st'"
    unfolding blob_scan_pairs length_scan_input st by (rule scan_split [OF m ij])
  ultimately have cons: "blob_id (fst st ! li) \<in> set (snd (blob_scan clk (scan_input w)))"
    using run_pairs_consumed_mono [of ?st' clk "drop (Suc m) (pairs ?n)"] by auto
  have nokey: "blob_id (fst st ! li) \<notin> fst ` set (blobs ?w')"
    using cons by (auto simp: tick_blobs fold_delete_set)
  have noid: "blob_id (fst st ! li) \<notin> (blob_id \<circ> snd) ` set (blobs ?w')"
  proof
    assume "blob_id (fst st ! li) \<in> (blob_id \<circ> snd) ` set (blobs ?w')"
    then obtain k b where kb: "(k, b) \<in> set (blobs ?w')" and "blob_id b = blob_id (fst st ! li)"
      by auto
    with tick_ids [OF keyed kb] have "(blob_id (fst st ! li), b) \<in> set (blobs ?w')"
      using kb by simp
    then have "blob_id (fst st ! li) \<in> fst ` set (blobs ?w')"
      by (rule image_eqI [rotated]) simp
    with nokey show False by simp
  qed
  from wl res massw nokey noid show ?thesis by blast
qed

text \<open>Mass 110 next to mass 50 of another owner: 160 after the pair, and \<open>b1\<close> is gone.\<close>

theorem engulfment_conserves_mass_witness:
  "mass (fst (resolve_pair 0 0 1
            (scan_input (ex_world [ex_blob ''a1'' ''A'' 100 100 110, ex_blob ''b1'' ''B'' 105 100 50]), [])) ! 0)
     = 160
   \<and> ''b1'' \<notin> fst ` set (blobs (fst (tick (\<lambda>r. ''0'') (\<lambda>i j. 0) (\<lambda>k. 0)
            (ex_world [ex_blob ''a1'' ''A'' 100 100 110, ex_blob ''b1'' ''B'' 105 100 50]))))"
proof -
  define A where "A = ex_blob ''a1'' ''A'' 100 100 110"
  define B where "B = ex_blob ''b1'' ''B'' 105 100 50"
  define w where "w = ex_world [A, B]"
  define st where "st = (scan_input w, [] :: string list)"
  define st' where "st' = resolve_pair 0 0 1 st"
  define K where "K = fst ` set (blobs (fst (tick (\<lambda>r. ''0'') (\<lambda>i j. 0) (\<lambda>k. 0) w)))"
  have si: "scan_input w = [A, B]"
    by (simp add: w_def A_def B_def scan_input_ex_world move_ex_blob)
  have len: "length (blobs w) = 2" by (simp add: w_def ex_world_def)
  have m: "0 < length (pairs (length (blobs w)))" by (simp add: len pairs_2)
  have ij: "pairs (length (blobs w)) ! 0 = (0, 1)" by (simp add: len pairs_2)
  have st: "st = run_pairs (\<lambda>i j. 0) (take 0 (pairs (length (blobs w)))) (scan_input w, [])"
    by (simp add: run_pairs_def st_def)
  have owners: "playerId (fst st ! 0) \<noteq> playerId (fst st ! 1)"
    by (simp add: st_def si A_def B_def ex_blob_def)
  have depth: "distance (pos A) (pos B) < radius A - radius B * 0.5"
    using radius_110 radius_50 by (simp add: A_def B_def ex_blob_def distance_def)
  have res: "st' = (absorb 0 1 [A, B], [''b1''])"
    using depth unfolding st'_def st_def si
    by (simp add: resolve_pair_def Let_def set_add_def) (simp add: A_def B_def ex_blob_def)
  have fired: "resolve_pair ((\<lambda>i j. 0) 0 1) 0 1 st \<noteq> st"
    using res by (simp add: st'_def st_def si)
  have keyed: "keyed w" unfolding w_def by (rule keyed_ex_world)
  have inst: "\<exists>wi li. ((wi = 0 \<and> li = 1) \<or> (wi = 1 \<and> li = 0))
           \<and> st' = (absorb wi li (fst st), set_add (blob_id (fst st ! li)) (snd st))
           \<and> mass (fst st' ! wi) = mass (fst st ! wi) + mass (fst st ! li)
           \<and> blob_id (fst st ! li) \<notin> K
           \<and> blob_id (fst st ! li) \<notin> (blob_id \<circ> snd) `
                 set (blobs (fst (tick (\<lambda>r. ''0'') (\<lambda>i j. 0) (\<lambda>k. 0) w)))"
    unfolding st'_def K_def
    by (rule engulfment_conserves_mass [OF keyed m ij st owners fired])
  then obtain wi li where wl: "(wi = 0 \<and> li = 1) \<or> (wi = 1 \<and> li = 0)"
    and r: "st' = (absorb wi li (fst st), set_add (blob_id (fst st ! li)) (snd st))"
    and ms: "mass (fst st' ! wi) = mass (fst st ! wi) + mass (fst st ! li)"
    and gone: "blob_id (fst st ! li) \<notin> K"
    by blast
  from r res have sa: "set_add (blob_id (fst st ! li)) (snd st) = [''b1'']" by simp
  have "li \<noteq> 0"
  proof
    assume "li = 0"
    with sa show False by (simp add: st_def si set_add_def A_def ex_blob_def)
  qed
  with wl have li: "li = 1" and wi: "wi = 0" by auto
  from ms have "mass (fst st' ! 0) = 160"
    unfolding li wi by (simp add: st_def si A_def B_def ex_blob_def)
  moreover from gone have "''b1'' \<notin> K"
    unfolding li by (simp add: st_def si B_def ex_blob_def)
  ultimately show ?thesis
    unfolding st'_def st_def K_def w_def A_def B_def by simp
qed


subsection \<open>Recombination waits for the timer\<close>

text \<open>
  C3. Take any pair \<open>(i, j)\<close> of the tick's scan whose blobs have the same, non-empty
  owner. If the clock reading at that pair is not strictly past both blobs'
  \<^verbatim>\<open>canRecombineTime\<close>, the pair leaves the state of the scan unchanged, wherever the
  blobs are: they are not merged.
\<close>

theorem no_recombination_before_eligible:
  assumes m: "m < length (pairs (length (blobs w)))"
    and ij: "pairs (length (blobs w)) ! m = (i, j)"
    and same: "playerId (snd (blobs w ! i)) = playerId (snd (blobs w ! j))"
    and nonempty: "playerId (snd (blobs w ! i)) \<noteq> []"
    and early: "\<not> (clk i j > canRecombineTime (snd (blobs w ! i))
                   \<and> clk i j > canRecombineTime (snd (blobs w ! j)))"
  shows "resolve_pair (clk i j) i j
           (run_pairs clk (take m (pairs (length (blobs w)))) (scan_input w, []))
         = run_pairs clk (take m (pairs (length (blobs w)))) (scan_input w, [])"
proof -
  let ?st = "run_pairs clk (take m (pairs (length (blobs w)))) (scan_input w, [])"
  from pairs_nth [OF m ij] have lt: "i < length (blobs w)" "j < length (blobs w)" by simp_all
  have fr: "same_but_size (fst ?st ! k) (scan_input w ! k)" if "k < length (blobs w)" for k
    using list_all2_nthD2 [OF run_pairs_frame [of clk "take m (pairs (length (blobs w)))" "(scan_input w, [])"], of k] that
    by (simp add: length_scan_input)
  have pi: "playerId (fst ?st ! i) = playerId (snd (blobs w ! i))"
    and ci: "canRecombineTime (fst ?st ! i) = canRecombineTime (snd (blobs w ! i))"
    using same_but_size_fields [OF fr [OF lt(1)]] scan_input_nth [OF lt(1)] by simp_all
  have pj: "playerId (fst ?st ! j) = playerId (snd (blobs w ! j))"
    and cj: "canRecombineTime (fst ?st ! j) = canRecombineTime (snd (blobs w ! j))"
    using same_but_size_fields [OF fr [OF lt(2)]] scan_input_nth [OF lt(2)] by simp_all
  show ?thesis
    using same nonempty early
    by (auto simp: resolve_pair_def [of _ _ _ ?st] Let_def pi ci pj cj)
qed


text \<open>
  Two overlapping pieces of one player, eligible from time 0: at time 0 nothing happens,
  at time 1 they merge.
\<close>

theorem no_recombination_before_eligible_witness:
  "resolve_pair 0 0 1
     (scan_input (ex_world [ex_blob ''a1'' ''A'' 100 100 40, ex_blob ''a2'' ''A'' 100 100 40]), [])
   = (scan_input (ex_world [ex_blob ''a1'' ''A'' 100 100 40, ex_blob ''a2'' ''A'' 100 100 40]), [])
   \<and> resolve_pair 1 0 1
     (scan_input (ex_world [ex_blob ''a1'' ''A'' 100 100 40, ex_blob ''a2'' ''A'' 100 100 40]), [])
   \<noteq> (scan_input (ex_world [ex_blob ''a1'' ''A'' 100 100 40, ex_blob ''a2'' ''A'' 100 100 40]), [])"
proof -
  let ?A = "ex_blob ''a1'' ''A'' 100 100 40"
  let ?B = "ex_blob ''a2'' ''A'' 100 100 40"
  let ?w = "ex_world [?A, ?B]"
  have si: "scan_input ?w = [?A, ?B]"
    by (simp add: scan_input_ex_world move_ex_blob)
  have len: "length (blobs ?w) = 2" by (simp add: ex_world_def)
  have m: "0 < length (pairs (length (blobs ?w)))" by (simp add: len pairs_2)
  have ij: "pairs (length (blobs ?w)) ! 0 = (0, 1)" by (simp add: len pairs_2)
  have same: "playerId (snd (blobs ?w ! 0)) = playerId (snd (blobs ?w ! 1))"
    and nonempty: "playerId (snd (blobs ?w ! 0)) \<noteq> []"
    by (simp_all add: ex_world_def ex_blob_def)
  have early: "\<not> ((\<lambda>i j. 0) 0 1 > canRecombineTime (snd (blobs ?w ! 0))
                   \<and> (\<lambda>i j. 0) 0 1 > canRecombineTime (snd (blobs ?w ! 1)))"
    by (simp add: ex_world_def ex_blob_def)
  from no_recombination_before_eligible [of 0 ?w 0 1 "\<lambda>i j. 0", OF m ij same nonempty early]
  have 1: "resolve_pair 0 0 1 (scan_input ?w, []) = (scan_input ?w, [])"
    by (simp add: run_pairs_def)
  have "0 < massToRadius 40" using massToRadius_lower [of 0 40] by simp
  then have 2: "resolve_pair 1 0 1 (scan_input ?w, []) \<noteq> (scan_input ?w, [])"
    by (simp add: si resolve_pair_def Let_def set_add_def) (simp add: ex_blob_def distance_def)
  from 1 2 show ?thesis by simp
qed

subsection \<open>The frame of the scan\<close>

lemma radius_160: "massToRadius 160 \<le> 90"
  using massToRadius_upper [of 9 160] by simp


text \<open>
  C10. The pair scan keeps the length of the array and, for every blob, its id,
  position, velocity, recombine time, name, colour and owner; a blob that is in no pair
  that changes the state of the scan comes out of the scan as it went in. Each single
  pair either leaves the state alone or records one blob as consumed and changes no
  blob of the array except the other one of the pair, which was not consumed before.
\<close>

theorem scan_touches_only_mass_and_radius:
  "length (fst (blob_scan clk bs)) = length bs
   \<and> (\<forall>k < length bs.
        blob_id (fst (blob_scan clk bs) ! k) = blob_id (bs ! k)
        \<and> pos (fst (blob_scan clk bs) ! k) = pos (bs ! k)
        \<and> velocity (fst (blob_scan clk bs) ! k) = velocity (bs ! k)
        \<and> canRecombineTime (fst (blob_scan clk bs) ! k) = canRecombineTime (bs ! k)
        \<and> name (fst (blob_scan clk bs) ! k) = name (bs ! k)
        \<and> color (fst (blob_scan clk bs) ! k) = color (bs ! k)
        \<and> playerId (fst (blob_scan clk bs) ! k) = playerId (bs ! k)
        \<and> ((\<forall>m < length (pairs (length bs)).
               (k = fst (pairs (length bs) ! m) \<or> k = snd (pairs (length bs) ! m)) \<longrightarrow>
               resolve_pair (clk (fst (pairs (length bs) ! m)) (snd (pairs (length bs) ! m)))
                   (fst (pairs (length bs) ! m)) (snd (pairs (length bs) ! m))
                   (run_pairs clk (take m (pairs (length bs))) (bs, []))
                 = run_pairs clk (take m (pairs (length bs))) (bs, []))
             \<longrightarrow> fst (blob_scan clk bs) ! k = bs ! k))
   \<and> (resolve_pair now i j st = st
        \<or> (\<exists>wi li. ((wi = i \<and> li = j) \<or> (wi = j \<and> li = i))
              \<and> blob_id (fst st ! wi) \<notin> set (snd st)
              \<and> snd (resolve_pair now i j st) = set_add (blob_id (fst st ! li)) (snd st)
              \<and> (\<forall>k. k \<noteq> wi \<longrightarrow> fst (resolve_pair now i j st) ! k = fst st ! k)))"
proof (intro conjI allI impI)
  show "resolve_pair now i j st = st
        \<or> (\<exists>wi li. ((wi = i \<and> li = j) \<or> (wi = j \<and> li = i))
              \<and> blob_id (fst st ! wi) \<notin> set (snd st)
              \<and> snd (resolve_pair now i j st) = set_add (blob_id (fst st ! li)) (snd st)
              \<and> (\<forall>k. k \<noteq> wi \<longrightarrow> fst (resolve_pair now i j st) ! k = fst st ! k))"
  proof (cases "resolve_pair now i j st = st")
    case True
    then show ?thesis by simp
  next
    case False
    then have live: "blob_id (fst st ! i) \<notin> set (snd st)" "blob_id (fst st ! j) \<notin> set (snd st)"
      by (auto simp: resolve_pair_def Let_def)
    from resolve_pair_cases [of now i j st] False
    obtain wi li where wl: "(wi = i \<and> li = j) \<or> (wi = j \<and> li = i)"
      and res: "resolve_pair now i j st
                  = (absorb wi li (fst st), set_add (blob_id (fst st ! li)) (snd st))"
      by blast
    have "\<forall>k. k \<noteq> wi \<longrightarrow> fst (resolve_pair now i j st) ! k = fst st ! k"
      by (simp add: res absorb_def)
    moreover have "blob_id (fst st ! wi) \<notin> set (snd st)" using wl live by auto
    moreover have "snd (resolve_pair now i j st) = set_add (blob_id (fst st ! li)) (snd st)"
      by (simp add: res)
    ultimately show ?thesis using wl by blast
  qed
next
  show len: "length (fst (blob_scan clk bs)) = length bs"
    by (simp add: blob_scan_pairs length_run_pairs)
next
  fix k assume k: "k < length bs"
  have "same_but_size (fst (blob_scan clk bs) ! k) (bs ! k)"
    using list_all2_nthD2 [OF run_pairs_frame [of clk "pairs (length bs)" "(bs, [])"], of k] k
    by (simp add: blob_scan_pairs)
  from same_but_size_fields [OF this]
  show "blob_id (fst (blob_scan clk bs) ! k) = blob_id (bs ! k)"
    and "pos (fst (blob_scan clk bs) ! k) = pos (bs ! k)"
    and "velocity (fst (blob_scan clk bs) ! k) = velocity (bs ! k)"
    and "canRecombineTime (fst (blob_scan clk bs) ! k) = canRecombineTime (bs ! k)"
    and "name (fst (blob_scan clk bs) ! k) = name (bs ! k)"
    and "color (fst (blob_scan clk bs) ! k) = color (bs ! k)"
    and "playerId (fst (blob_scan clk bs) ! k) = playerId (bs ! k)"
    by simp_all
  let ?ps = "pairs (length bs)"
  assume idle: "\<forall>m < length ?ps.
      (k = fst (?ps ! m) \<or> k = snd (?ps ! m)) \<longrightarrow>
      resolve_pair (clk (fst (?ps ! m)) (snd (?ps ! m))) (fst (?ps ! m)) (snd (?ps ! m))
          (run_pairs clk (take m ?ps) (bs, []))
        = run_pairs clk (take m ?ps) (bs, [])"
  have "fst (run_pairs clk (take m ?ps) (bs, [])) ! k = bs ! k" if "m \<le> length ?ps" for m
    using that
  proof (induction m)
    case 0
    show ?case by (simp add: run_pairs_Nil)
  next
    case (Suc m)
    then have m: "m < length ?ps" by simp
    obtain i j where ij: "?ps ! m = (i, j)" by (cases "?ps ! m")
    have step: "run_pairs clk (take (Suc m) ?ps) (bs, [])
        = resolve_pair (clk i j) i j (run_pairs clk (take m ?ps) (bs, []))"
      by (simp add: take_Suc_conv_app_nth [OF m] ij run_pairs_snoc)
    show ?case
    proof (cases "k = i \<or> k = j")
      case True
      with idle m ij have "resolve_pair (clk i j) i j (run_pairs clk (take m ?ps) (bs, []))
          = run_pairs clk (take m ?ps) (bs, [])" by auto
      with Suc show ?thesis by (simp add: step)
    next
      case False
      with Suc show ?thesis by (simp add: step resolve_pair_other)
    qed
  qed
  from this [of "length ?ps"] show "fst (blob_scan clk bs) ! k = bs ! k"
    by (simp add: blob_scan_pairs)
qed

text \<open>
  Three blobs of three owners: the first consumes the second and grows to 160 where it
  stood; the third, far away, is in no pair that changes anything and is unchanged.
\<close>

theorem scan_touches_only_mass_and_radius_witness:
  "fst (blob_scan (\<lambda>i j. 0)
      [ex_blob ''a1'' ''A'' 100 100 110, ex_blob ''b1'' ''B'' 105 100 50,
       ex_blob ''c1'' ''C'' 2000 100 20]) ! 2 = ex_blob ''c1'' ''C'' 2000 100 20
   \<and> pos (fst (blob_scan (\<lambda>i j. 0)
      [ex_blob ''a1'' ''A'' 100 100 110, ex_blob ''b1'' ''B'' 105 100 50,
       ex_blob ''c1'' ''C'' 2000 100 20]) ! 0) = \<lparr> vec_x = 100, vec_y = 100 \<rparr>
   \<and> mass (fst (blob_scan (\<lambda>i j. 0)
      [ex_blob ''a1'' ''A'' 100 100 110, ex_blob ''b1'' ''B'' 105 100 50,
       ex_blob ''c1'' ''C'' 2000 100 20]) ! 0) = 160"
proof -
  define A where "A = ex_blob ''a1'' ''A'' 100 100 110"
  define B where "B = ex_blob ''b1'' ''B'' 105 100 50"
  define C where "C = ex_blob ''c1'' ''C'' 2000 100 20"
  define bs where "bs = [A, B, C]"
  define clk where "clk = (\<lambda>(i::nat) (j::nat). 0::int)"
  define st1 where "st1 = (absorb 0 1 bs, [''b1''])"
  have len: "length bs = 3" by (simp add: bs_def)
  have ps: "pairs (length bs) = [(0, 1), (0, 2), (1, 2)]" by (simp add: len pairs_3)
  have depth: "distance (pos A) (pos B) < radius A - radius B * 0.5"
    using radius_110 radius_50 by (simp add: A_def B_def ex_blob_def distance_def)
  have r1: "resolve_pair 0 0 1 (bs, []) = st1"
    using depth unfolding st1_def bs_def
    by (simp add: resolve_pair_def Let_def set_add_def) (simp add: A_def B_def ex_blob_def)
  have a0: "fst st1 ! 0 = A\<lparr> mass := 160, radius := massToRadius 160 \<rparr>"
    by (simp add: st1_def bs_def absorb_def A_def B_def ex_blob_def)
  have a1: "fst st1 ! Suc 0 = B" and a2: "fst st1 ! 2 = C" and sn: "snd st1 = [''b1'']"
    by (simp_all add: st1_def bs_def absorb_def)
  have idB: "blob_id B = ''b1''" by (simp add: B_def ex_blob_def)
  have far: "\<not> distance (pos A) (pos C) < massToRadius 160 - radius C * 0.5"
    using radius_160 massToRadius_nonneg [of 20]
    by (simp add: A_def C_def ex_blob_def distance_def)
  have r2: "resolve_pair 0 0 2 st1 = st1"
    using far by (simp add: resolve_pair_def Let_def a0 a2 sn) (simp add: A_def C_def ex_blob_def)
  have r3: "resolve_pair 0 1 2 st1 = st1"
    by (simp add: resolve_pair_def Let_def a1 sn idB)
  note r1' = r1 [unfolded One_nat_def] and r3' = r3 [unfolded One_nat_def]
  have t1: "run_pairs clk (take 1 (pairs (length bs))) (bs, []) = st1"
    by (simp add: ps run_pairs_def clk_def r1')
  have t2: "run_pairs clk (take 2 (pairs (length bs))) (bs, []) = st1"
    by (simp add: ps run_pairs_def clk_def r1' r2)
  have t3: "blob_scan clk bs = st1"
    by (simp add: blob_scan_pairs ps run_pairs_def clk_def r1' r2 r3')
  have idle: "\<forall>m < length (pairs (length bs)).
       (2 = fst (pairs (length bs) ! m) \<or> 2 = snd (pairs (length bs) ! m)) \<longrightarrow>
       resolve_pair (clk (fst (pairs (length bs) ! m)) (snd (pairs (length bs) ! m)))
           (fst (pairs (length bs) ! m)) (snd (pairs (length bs) ! m))
           (run_pairs clk (take m (pairs (length bs))) (bs, []))
         = run_pairs clk (take m (pairs (length bs))) (bs, [])"
  proof (intro allI impI)
    fix m assume "m < length (pairs (length bs))"
    then have "m = 0 \<or> m = 1 \<or> m = 2" by (auto simp: ps)
    moreover assume "2 = fst (pairs (length bs) ! m) \<or> 2 = snd (pairs (length bs) ! m)"
    ultimately show "resolve_pair (clk (fst (pairs (length bs) ! m)) (snd (pairs (length bs) ! m)))
           (fst (pairs (length bs) ! m)) (snd (pairs (length bs) ! m))
           (run_pairs clk (take m (pairs (length bs))) (bs, []))
         = run_pairs clk (take m (pairs (length bs))) (bs, [])"
      using t1 t2 r2 r3' by (auto simp: ps clk_def)
  qed
  have k2: "2 < length bs" and k0: "0 < length bs" by (simp_all add: len)
  note inst = scan_touches_only_mass_and_radius [of clk bs 0 0 1 "(bs, [])"]
  note at2 = inst [THEN conjunct2, THEN conjunct1, THEN spec, of 2, THEN mp, OF k2]
  note at0 = inst [THEN conjunct2, THEN conjunct1, THEN spec, of 0, THEN mp, OF k0]
  from at2 idle have "fst (blob_scan clk bs) ! 2 = bs ! 2" by blast
  then have 1: "fst (blob_scan clk bs) ! 2 = C" by (simp add: bs_def)
  from at0 have "pos (fst (blob_scan clk bs) ! 0) = pos (bs ! 0)" by blast
  then have 2: "pos (fst (blob_scan clk bs) ! 0) = \<lparr> vec_x = 100, vec_y = 100 \<rparr>"
    by (simp add: bs_def A_def ex_blob_def)
  have 3: "mass (fst (blob_scan clk bs) ! 0) = 160"
    by (simp add: t3 a0)
  from 1 2 3 show ?thesis
    unfolding bs_def A_def B_def C_def clk_def by simp
qed

subsection \<open>Which values the thresholds read\<close>

lemma radius_16: "massToRadius 16 \<le> 30" using massToRadius_upper [of 3 16] by simp
lemma radius_16_pos: "0 < massToRadius 16" using massToRadius_lower [of 0 16] by simp
lemma radius_400: "100 < massToRadius 400" using massToRadius_lower [of 10 400] by simp
lemma radius_20: "massToRadius 20 \<le> 40" using massToRadius_upper [of 4 20] by simp


text \<open>
  C7, as stated, fails. With the clock at 1, the first piece of A absorbs the second at
  pair (0, 1) and its radius grows from \<open>massToRadius 16\<close> to \<open>massToRadius 400\<close>. At pair
  (0, 2) the code tests the distance 50 against the grown radius and the blob of C is
  consumed, although with the radii the blobs had before the scan neither blob passes
  the distance test; the scan that reads the snapshot radii consumes only \<open>a2\<close>.
\<close>

theorem scan_reads_updated_radius_counterexample:
  "snd (blob_scan (\<lambda>i j. 1) ex_cascade) = [''a2'', ''c1'']
   \<and> \<not> distance (pos (ex_cascade ! 0)) (pos (ex_cascade ! 2))
         < radius (ex_cascade ! 0) - radius (ex_cascade ! 2) * 0.5
   \<and> \<not> distance (pos (ex_cascade ! 2)) (pos (ex_cascade ! 0))
         < radius (ex_cascade ! 2) - radius (ex_cascade ! 0) * 0.5
   \<and> snd (blob_scan_snapshot (\<lambda>i j. 1) ex_cascade) = [''a2'']"
proof -
  define A1 where "A1 = ex_blob ''a1'' ''A'' 100 100 16"
  define A2 where "A2 = ex_blob ''a2'' ''A'' 100 100 384"
  define C where "C = ex_blob ''c1'' ''C'' 150 100 20"
  define G where "G = A1\<lparr> mass := 400, radius := massToRadius 400 \<rparr>"
  have ex: "ex_cascade = [A1, A2, C]" by (simp add: ex_cascade_def A1_def A2_def C_def)
  have ab: "absorb 0 (Suc 0) [A1, A2, C] = [G, A2, C]"
    by (simp add: absorb_def G_def A1_def A2_def ex_blob_def)
  have f: "blob_id A1 = ''a1''" "blob_id A2 = ''a2''" "blob_id C = ''c1''" "blob_id G = ''a1''"
    "playerId A1 = ''A''" "playerId A2 = ''A''" "playerId C = ''C''" "playerId G = ''A''"
    "canRecombineTime A1 = 0" "canRecombineTime A2 = 0"
    "mass G = 400" "mass C = 20" "mass A1 = 16" "radius G = massToRadius 400"
    "radius A1 = massToRadius 16" "radius C = massToRadius 20"
    by (simp_all add: G_def A1_def A2_def C_def ex_blob_def)
  have d01: "distance (pos A1) (pos A2) = 0" and d02: "distance (pos A1) (pos C) = 50"
    and dg: "pos G = pos A1"
    by (simp_all add: G_def A1_def A2_def C_def ex_blob_def distance_def)
  have near: "50 < massToRadius 400 - massToRadius 20 * 0.5"
    using radius_400 radius_20 by simp
  have far: "\<not> 50 < massToRadius 16 - massToRadius 20 * 0.5"
    using radius_16 massToRadius_nonneg [of 20] by simp
  have c1: "resolve_pair 1 0 (Suc 0) ([A1, A2, C], []) = ([G, A2, C], [''a2''])"
    using radius_16_pos by (simp add: resolve_pair_def Let_def f d01 ab set_add_def)
  have c2: "resolve_pair 1 0 2 ([G, A2, C], [''a2'']) = (absorb 0 2 [G, A2, C], [''a2'', ''c1''])"
    using near by (simp add: resolve_pair_def Let_def f dg d02 set_add_def)
  have c3: "resolve_pair 1 (Suc 0) 2 (absorb 0 2 [G, A2, C], [''a2'', ''c1''])
              = (absorb 0 2 [G, A2, C], [''a2'', ''c1''])"
    by (simp add: resolve_pair_def Let_def f absorb_def)
  have ps: "pairs (length ex_cascade) = [(0, 1), (0, 2), (1, 2)]"
  proof -
    have "length ex_cascade = 3" by (simp add: ex_cascade_def)
    then show ?thesis by (simp only: pairs_3)
  qed
  have code: "snd (blob_scan (\<lambda>i j. 1) ex_cascade) = [''a2'', ''c1'']"
    unfolding blob_scan_pairs ps run_pairs_def by (simp add: ex c1 c2 c3)
  have s1: "resolve_pair_reading (\<lambda>k. pos ([A1, A2, C] ! k)) (\<lambda>cur k. radius ([A1, A2, C] ! k)) 1 0 (Suc 0)
              ([A1, A2, C], []) = ([G, A2, C], [''a2''])"
    using radius_16_pos by (simp add: resolve_pair_reading_def Let_def f d01 ab set_add_def)
  have s2: "resolve_pair_reading (\<lambda>k. pos ([A1, A2, C] ! k)) (\<lambda>cur k. radius ([A1, A2, C] ! k)) 1 0 2
              ([G, A2, C], [''a2'']) = ([G, A2, C], [''a2''])"
    using far by (simp add: resolve_pair_reading_def Let_def f d02 set_add_def)
  have s3: "resolve_pair_reading (\<lambda>k. pos ([A1, A2, C] ! k)) (\<lambda>cur k. radius ([A1, A2, C] ! k)) 1 (Suc 0) 2
              ([G, A2, C], [''a2'']) = ([G, A2, C], [''a2''])"
    by (simp add: resolve_pair_reading_def Let_def f)
  have spec: "snd (blob_scan_snapshot (\<lambda>i j. 1) ex_cascade) = [''a2'']"
    unfolding blob_scan_snapshot_def scan_reading_def ps by (simp add: ex s1 s2 s3)
  have t1: "\<not> distance (pos (ex_cascade ! 0)) (pos (ex_cascade ! 2))
         < radius (ex_cascade ! 0) - radius (ex_cascade ! 2) * 0.5"
    using far by (simp add: ex f d02)
  have t2: "\<not> distance (pos (ex_cascade ! 2)) (pos (ex_cascade ! 0))
         < radius (ex_cascade ! 2) - radius (ex_cascade ! 0) * 0.5"
    using radius_20 massToRadius_nonneg [of 16]
    by (simp add: ex f distance_commute [of "pos C"] d02)
  from code t1 t2 spec show ?thesis by simp
qed

lemma resolve_pair_reading_current:
  assumes "pos (fst st ! i) = pos (bs ! i)" and "pos (fst st ! j) = pos (bs ! j)"
  shows "resolve_pair_reading (\<lambda>k. pos (bs ! k)) (\<lambda>cur k. radius (cur ! k)) now i j st
           = resolve_pair now i j st"
  using assms by (simp add: resolve_pair_reading_def resolve_pair_def Let_def)

lemma run_pairs_pos:
  assumes "k < length bs"
  shows "pos (fst (run_pairs clk ps (bs, [])) ! k) = pos (bs ! k)"
  using same_but_size_fields
    [OF list_all2_nthD2 [OF run_pairs_frame [of clk ps "(bs, [])"], of k]] assms
  by simp

lemma reading_run_pairs:
  assumes "\<forall>p \<in> set ps. fst p < length bs \<and> snd p < length bs"
  shows "foldl (\<lambda>st (i, j). resolve_pair_reading (\<lambda>k. pos (bs ! k)) (\<lambda>cur k. radius (cur ! k))
                              (clk i j) i j st) (bs, []) ps
           = run_pairs clk ps (bs, [])"
  using assms
proof (induction ps rule: rev_induct)
  case Nil
  show ?case by (simp add: run_pairs_Nil)
next
  case (snoc p ps)
  obtain i j where p: "p = (i, j)" by (cases p)
  from snoc.prems p have lt: "i < length bs" "j < length bs" by simp_all
  from snoc have IH: "foldl (\<lambda>st (i, j). resolve_pair_reading (\<lambda>k. pos (bs ! k))
        (\<lambda>cur k. radius (cur ! k)) (clk i j) i j st) (bs, []) ps = run_pairs clk ps (bs, [])"
    by simp
  show ?case
    unfolding p run_pairs_snoc
    by (simp add: IH resolve_pair_reading_current [OF run_pairs_pos [OF lt(1)] run_pairs_pos [OF lt(2)]])
qed


text \<open>
  C7, amended. The scan evaluates the pairs of \<open>pairs\<close>, in that order: no pair twice, and
  always \<open>i < j\<close>, so no unordered pair twice. The threshold tests of each pair read the
  positions the blobs had before the scan (the scan moves no blob) and the radius and
  mass the blobs have when the pair is reached, updates by earlier pairs of the same
  scan included.
\<close>

theorem scan_pairs_once_current_radius:
  "blob_scan clk bs = run_pairs clk (pairs (length bs)) (bs, [])
   \<and> distinct (pairs (length bs))
   \<and> (\<forall>p \<in> set (pairs (length bs)). fst p < snd p \<and> snd p < length bs)
   \<and> blob_scan clk bs
       = scan_reading (\<lambda>k. pos (bs ! k)) (\<lambda>cur k. radius (cur ! k)) clk bs"
proof -
  have in_range: "\<forall>p \<in> set (pairs (length bs)). fst p < snd p \<and> snd p < length bs"
    by (auto simp: pairs_set)
  then have "\<forall>p \<in> set (pairs (length bs)). fst p < length bs \<and> snd p < length bs"
    by auto
  from reading_run_pairs [OF this, of clk]
  have "scan_reading (\<lambda>k. pos (bs ! k)) (\<lambda>cur k. radius (cur ! k)) clk bs = blob_scan clk bs"
    by (simp add: scan_reading_def blob_scan_pairs)
  with in_range show ?thesis
    by (simp add: blob_scan_pairs pairs_distinct)
qed


theorem scan_pairs_once_current_radius_witness:
  "blob_scan (\<lambda>i j. 1) ex_cascade
     = scan_reading (\<lambda>k. pos (ex_cascade ! k)) (\<lambda>cur k. radius (cur ! k)) (\<lambda>i j. 1) ex_cascade
   \<and> distinct (pairs (length ex_cascade))
   \<and> pairs (length ex_cascade) = [(0, 1), (0, 2), (1, 2)]"
proof -
  have "length ex_cascade = 3" by (simp add: ex_cascade_def)
  then have ps: "pairs (length ex_cascade) = [(0, 1), (0, 2), (1, 2)]" by (simp only: pairs_3)
  note inst = scan_pairs_once_current_radius [of "\<lambda>i j. 1" ex_cascade]
  show ?thesis
    by (intro conjI) (rule inst [THEN conjunct2, THEN conjunct2, THEN conjunct2],
        rule inst [THEN conjunct2, THEN conjunct1], rule ps)
qed

subsection \<open>Food\<close>

lemma length_replenish: "length (replenish fmt rnd k fd) = max FOOD_COUNT (length fd)"
proof (induction fmt rnd k fd rule: replenish.induct)
  case (1 fmt rnd k fd)
  show ?case
  proof (cases "length fd < FOOD_COUNT")
    case True
    with "1.IH" show ?thesis
      by (subst replenish.simps) simp
  next
    case False
    then show ?thesis
      by (subst replenish.simps) simp
  qed
qed

lemma length_eat_food: "length (snd (eat_food b fd)) \<le> length fd"
proof (induction fd arbitrary: b)
  case Nil
  show ?case by simp
next
  case (Cons f fs)
  show ?case
    using Cons.IH [of b]
      Cons.IH [of "b\<lparr> mass := mass b + food_mass f, radius := massToRadius (mass b + food_mass f) \<rparr>"]
    by (simp add: split_beta)
qed

lemma length_eat_all: "length (snd (eat_all bs fd)) \<le> length fd"
proof (induction bs arbitrary: fd)
  case Nil
  show ?case by simp
next
  case (Cons b bs)
  have "length (snd (eat_all bs (snd (eat_food b fd)))) \<le> length (snd (eat_food b fd))"
    by (rule Cons.IH)
  also have "\<dots> \<le> length fd" by (rule length_eat_food)
  finally show ?case by (simp add: split_beta)
qed

lemma massToRadius_pos: "0 < m \<Longrightarrow> 0 < massToRadius m"
  by (simp add: massToRadius_def)

lemma eat_food_all:
  assumes "\<forall>f \<in> set fd. food_pos f = pos b \<and> 0 < food_mass f" and "0 < mass b" and "0 < radius b"
  shows "snd (eat_food b fd) = []"
  using assms
proof (induction fd arbitrary: b)
  case Nil
  show ?case by simp
next
  case (Cons f fs)
  let ?b = "b\<lparr> mass := mass b + food_mass f, radius := massToRadius (mass b + food_mass f) \<rparr>"
  from Cons.prems have f: "food_pos f = pos b" "0 < food_mass f" by simp_all
  have near: "distance (pos b) (food_pos f) < radius b"
    using Cons.prems(3) by (simp add: f distance_def)
  have "snd (eat_food ?b fs) = []"
  proof (rule Cons.IH)
    show "\<forall>f \<in> set fs. food_pos f = pos ?b \<and> 0 < food_mass f" using Cons.prems(1) by simp
    show "0 < mass ?b" using Cons.prems(2) f by simp
    show "0 < radius ?b" using Cons.prems(2) f by (simp add: massToRadius_pos)
  qed
  with near show ?case by simp
qed


text \<open>
  C4. The constructor creates exactly 200 pellets, and a tick that starts with exactly
  200 pellets ends with exactly 200, whatever was eaten in between.
\<close>

theorem food_count_restored:
  "length (food (GameServer_new fmt rnd0)) = 200
   \<and> (length (food w) = 200 \<longrightarrow> length (food (fst (tick fmt clk rnd w))) = 200)"
proof -
  have "length (food (fst (tick fmt clk rnd w))) = 200" if "length (food w) = 200"
  proof -
    have "length (snd (eat_all (map (move_blob \<circ> snd) (blobs w)) (food w))) \<le> 200"
      using length_eat_all [of "map (move_blob \<circ> snd) (blobs w)" "food w"] that by simp
    then show ?thesis
      unfolding tick_food length_replenish FOOD_COUNT_def by simp
  qed
  then show ?thesis
    by (simp add: GameServer_new_def FOOD_COUNT_def)
qed


text \<open>The blob at the origin eats all 200 pellets; the tick ends with 200 new ones.\<close>

theorem food_count_restored_witness:
  "length (food ex_feeding_world) = 200
   \<and> snd (eat_all (map (move_blob \<circ> snd) (blobs ex_feeding_world)) (food ex_feeding_world)) = []
   \<and> length (food (fst (tick (\<lambda>r. ''0'') (\<lambda>i j. 0) (\<lambda>k. 0) ex_feeding_world))) = 200"
proof -
  have len: "length (food ex_feeding_world) = 200"
    by (simp add: ex_feeding_world_def GameServer_new_def FOOD_COUNT_def)
  have mv: "map (move_blob \<circ> snd) (blobs ex_feeding_world) = [ex_blob ''a1'' ''A'' 0 0 20]"
    by (simp add: ex_feeding_world_def move_ex_blob)
  have "snd (eat_food (ex_blob ''a1'' ''A'' 0 0 20) (food ex_feeding_world)) = []"
  proof (rule eat_food_all)
    show "\<forall>f \<in> set (food ex_feeding_world).
            food_pos f = pos (ex_blob ''a1'' ''A'' 0 0 20) \<and> 0 < food_mass f"
      by (auto simp: ex_feeding_world_def GameServer_new_def createFood_def random_def
            FOOD_MASS_def ex_blob_def)
    show "0 < mass (ex_blob ''a1'' ''A'' 0 0 20)" by (simp add: ex_blob_def)
    show "0 < radius (ex_blob ''a1'' ''A'' 0 0 20)" by (simp add: ex_blob_def massToRadius_pos)
  qed
  then have eaten: "snd (eat_all (map (move_blob \<circ> snd) (blobs ex_feeding_world))
                          (food ex_feeding_world)) = []"
    by (simp add: mv split_beta)
  from food_count_restored [of "\<lambda>r. ''0''" "\<lambda>k. 0" ex_feeding_world "\<lambda>i j. 0" "\<lambda>k. 0"] len
  have "length (food (fst (tick (\<lambda>r. ''0'') (\<lambda>i j. 0) (\<lambda>k. 0) ex_feeding_world))) = 200"
    by simp
  with len eaten show ?thesis by simp
qed

subsection \<open>Player actions\<close>

lemma foldl_idle: "(\<And>x. x \<in> set xs \<Longrightarrow> f m x = m) \<Longrightarrow> foldl f m xs = m"
  by (induction xs) simp_all

lemma split_loop_idle:
  "\<forall>b \<in> snd ` set m. playerId b \<noteq> pid \<Longrightarrow> split_loop mk pid n cap m news = (m, news)"
  by (induction m arbitrary: news) auto


text \<open>
  C9. When no blob of the world belongs to the player id, \<^verbatim>\<open>disconnectPlayer\<close> leaves
  the blobs, the food and the messages as they are (it only deletes the id from the
  table of names), and \<^verbatim>\<open>updatePlayerInput\<close> and \<^verbatim>\<open>playerSplit\<close> return the world
  unchanged. None of the three has a failing path.
\<close>

theorem unknown_player_is_noop:
  assumes "\<forall>b \<in> snd ` set (blobs w). playerId b \<noteq> pid"
  shows "blobs (disconnectPlayer pid w) = blobs w
       \<and> food (disconnectPlayer pid w) = food w
       \<and> messages (disconnectPlayer pid w) = messages w
       \<and> updatePlayerInput clk pid mousePos windowSize camera w = w
       \<and> playerSplit fmt clk' rnd pid mousePos windowSize camera w = w"
proof -
  have none: "filter (\<lambda>b. playerId b = pid) (map snd (blobs w)) = []"
    using assms by (auto simp: filter_empty_conv)
  have "foldl (\<lambda>m b. if playerId b = pid then AList.delete (blob_id b) m else m)
          (blobs w) (map snd (blobs w)) = blobs w"
    using assms by (intro foldl_idle) auto
  then have d: "blobs (disconnectPlayer pid w) = blobs w"
    by (simp add: disconnectPlayer_def)
  have "filter (\<lambda>(n, b). playerId b = pid) (enumerate 0 (map snd (blobs w))) = []"
    using assms by (auto simp: filter_empty_conv in_set_enumerate_eq)
  then have u: "updatePlayerInput clk pid mousePos windowSize camera w = w"
    by (simp add: updatePlayerInput_def)
  have s: "playerSplit fmt clk' rnd pid mousePos windowSize camera w = w"
    using split_loop_idle [OF assms]
    by (simp add: playerSplit_def none getMaxBlobsForMass_def MIN_MASS_TO_SPLIT_def)
  from d u s show ?thesis by (simp add: disconnectPlayer_def)
qed


theorem unknown_player_is_noop_witness:
  "blobs (disconnectPlayer ''ghost'' (ex_world [ex_blob ''a1'' ''A'' 100 100 100]))
     = blobs (ex_world [ex_blob ''a1'' ''A'' 100 100 100])
   \<and> updatePlayerInput (\<lambda>k. 0) ''ghost'' \<lparr> vec_x = 400, vec_y = 300 \<rparr>
        \<lparr> width = 800, height = 600 \<rparr> \<lparr> cam_x = 100, cam_y = 100, zoom = 1 \<rparr>
        (ex_world [ex_blob ''a1'' ''A'' 100 100 100])
     = ex_world [ex_blob ''a1'' ''A'' 100 100 100]
   \<and> playerSplit (\<lambda>r. ''0'') (\<lambda>k. 0) (\<lambda>k. 0) ''ghost'' \<lparr> vec_x = 400, vec_y = 300 \<rparr>
        \<lparr> width = 800, height = 600 \<rparr> \<lparr> cam_x = 100, cam_y = 100, zoom = 1 \<rparr>
        (ex_world [ex_blob ''a1'' ''A'' 100 100 100])
     = ex_world [ex_blob ''a1'' ''A'' 100 100 100]"
proof -
  have "\<forall>b \<in> snd ` set (blobs (ex_world [ex_blob ''a1'' ''A'' 100 100 100])). playerId b \<noteq> ''ghost''"
    by (simp add: ex_world_def ex_blob_def)
  from unknown_player_is_noop [OF this] show ?thesis by simp
qed

lemma foldl_mass_sum: "foldl (\<lambda>sum b. sum + mass b) a bs = a + sum_list (map mass bs)"
  by (induction bs arbitrary: a) simp_all

lemma split_blob_owner: "playerId (fst (split_blob fmt rt mousePos windowSize camera now r b)) = playerId b"
  and split_blob_sibling_owner:
    "playerId (snd (split_blob fmt rt mousePos windowSize camera now r b)) = playerId b"
  by (simp_all add: split_blob_def Let_def)

lemma split_loop_owners:
  assumes "\<And>k b. playerId (fst (mk k b)) = playerId b"
  shows "map (playerId \<circ> snd) (fst (split_loop mk pid n cap m news)) = map (playerId \<circ> snd) m"
  by (induction m arbitrary: news) (auto simp: split_beta assms)

lemma split_loop_cap:
  "n + length news \<le> cap \<Longrightarrow> n + length (snd (split_loop mk pid n cap m news)) \<le> cap"
  by (induction m arbitrary: news) (auto simp: split_beta)

lemma count_update:
  "length (filter P (map snd (AList.update k v m))) \<le> Suc (length (filter P (map snd m)))"
  by (induction m) auto

lemma count_updates:
  "length (filter P (map snd (foldl (\<lambda>m b. AList.update (blob_id b) b m) m news)))
     \<le> length (filter P (map snd m)) + length news"
proof (induction news arbitrary: m)
  case Nil
  show ?case by simp
next
  case (Cons b news)
  have "length (filter P (map snd (foldl (\<lambda>m b. AList.update (blob_id b) b m)
            (AList.update (blob_id b) b m) news)))
        \<le> length (filter P (map snd (AList.update (blob_id b) b m))) + length news"
    by (rule Cons.IH)
  also have "\<dots> \<le> Suc (length (filter P (map snd m))) + length news"
    using count_update [of P "blob_id b" b m] by simp
  finally show ?case by simp
qed

lemma filter_owner_cong:
  fixes m m' :: "(string \<times> Blob) list"
  shows "map (playerId \<circ> snd) m' = map (playerId \<circ> snd) m \<Longrightarrow>
     length (filter (\<lambda>b. playerId b = pid) (map snd m'))
       = length (filter (\<lambda>b. playerId b = pid) (map snd m))"
proof -
  assume eq: "map (playerId \<circ> snd) m' = map (playerId \<circ> snd) m"
  have key: "length (filter (\<lambda>b. playerId b = pid) (map snd xs))
          = length (filter (\<lambda>p. p = pid) (map (playerId \<circ> snd) xs))" for xs :: "(string \<times> Blob) list"
    by (induction xs) simp_all
  have "length (filter (\<lambda>b. playerId b = pid) (map snd m'))
          = length (filter (\<lambda>p. p = pid) (map (playerId \<circ> snd) m'))" by (rule key)
  also have "\<dots> = length (filter (\<lambda>p. p = pid) (map (playerId \<circ> snd) m))"
    by (simp only: eq)
  also have "\<dots> = length (filter (\<lambda>b. playerId b = pid) (map snd m))"
    by (rule key [symmetric])
  finally show ?thesis .
qed


text \<open>
  C2. With \<open>cap\<close> the value of \<^verbatim>\<open>getMaxBlobsForMass\<close> at the sum of the masses of the
  player's blobs when the split is requested: if the player already has \<open>cap\<close> blobs or
  more, \<^verbatim>\<open>playerSplit\<close> returns the world unchanged; otherwise the player has at most
  \<open>cap\<close> blobs afterwards.
\<close>

theorem split_respects_cap:
  "(getMaxBlobsForMass (sum_list (map mass (owned pid w))) \<le> length (owned pid w)
      \<longrightarrow> playerSplit fmt clk rnd pid mousePos windowSize camera w = w)
   \<and> (length (owned pid w) < getMaxBlobsForMass (sum_list (map mass (owned pid w)))
      \<longrightarrow> length (owned pid (playerSplit fmt clk rnd pid mousePos windowSize camera w))
            \<le> getMaxBlobsForMass (sum_list (map mass (owned pid w))))"
proof -
  let ?cap = "getMaxBlobsForMass (sum_list (map mass (owned pid w)))"
  let ?n = "length (owned pid w)"
  let ?mk = "\<lambda>k. split_blob fmt (clk 0 + RECOMBINE_DELAY_MS) mousePos windowSize camera
                   (clk (Suc k)) (rnd k)"
  let ?loop = "split_loop ?mk pid ?n ?cap (blobs w) []"
  have total: "foldl (\<lambda>sum b. sum + mass b) 0 (owned pid w) = sum_list (map mass (owned pid w))"
    by (simp add: foldl_mass_sum)
  have noop: "playerSplit fmt clk rnd pid mousePos windowSize camera w = w" if "?cap \<le> ?n"
    using that by (simp add: playerSplit_def Let_def owned_def [symmetric] total)
  have bounded: "length (owned pid (playerSplit fmt clk rnd pid mousePos windowSize camera w)) \<le> ?cap"
    if lt: "?n < ?cap"
  proof -
    have ps: "blobs (playerSplit fmt clk rnd pid mousePos windowSize camera w)
                = foldl (\<lambda>m b. AList.update (blob_id b) b m) (fst ?loop) (snd ?loop)"
      using lt by (simp add: playerSplit_def Let_def owned_def [symmetric] total split_beta)
    have "length (filter (\<lambda>b. playerId b = pid) (map snd (fst ?loop))) = ?n"
      unfolding owned_def
      by (rule filter_owner_cong, rule split_loop_owners) (rule split_blob_owner)
    moreover have "?n + length (snd ?loop) \<le> ?cap"
      using lt by (intro split_loop_cap) simp
    ultimately show ?thesis
      using count_updates [of "\<lambda>b. playerId b = pid" "fst ?loop" "snd ?loop"]
      by (simp add: owned_def [of pid "playerSplit fmt clk rnd pid mousePos windowSize camera w"] ps)
  qed
  from noop bounded show ?thesis by blast
qed

text \<open>
  The spec's scenario: one blob of mass 100 (cap 4) becomes two of mass 50. One blob of
  mass 20 (cap 1) is left alone.
\<close>

theorem split_respects_cap_witness:
  "map (mass \<circ> snd) (blobs (playerSplit (\<lambda>r. ''0'') (\<lambda>k. 0) (\<lambda>k. 0) ''A'' \<lparr> vec_x = 400, vec_y = 300 \<rparr>
        \<lparr> width = 800, height = 600 \<rparr> \<lparr> cam_x = 100, cam_y = 100, zoom = 1 \<rparr>
        (ex_world [ex_blob ''a1'' ''A'' 100 100 100]))) = [50, 50]
   \<and> length (owned ''A'' (playerSplit (\<lambda>r. ''0'') (\<lambda>k. 0) (\<lambda>k. 0) ''A'' \<lparr> vec_x = 400, vec_y = 300 \<rparr>
        \<lparr> width = 800, height = 600 \<rparr> \<lparr> cam_x = 100, cam_y = 100, zoom = 1 \<rparr>
        (ex_world [ex_blob ''a1'' ''A'' 100 100 100]))) \<le> 4
   \<and> playerSplit (\<lambda>r. ''0'') (\<lambda>k. 0) (\<lambda>k. 0) ''A'' \<lparr> vec_x = 400, vec_y = 300 \<rparr>
        \<lparr> width = 800, height = 600 \<rparr> \<lparr> cam_x = 100, cam_y = 100, zoom = 1 \<rparr>
        (ex_world [ex_blob ''a1'' ''A'' 100 100 20])
     = ex_world [ex_blob ''a1'' ''A'' 100 100 20]"
proof -
  define big where "big = ex_world [ex_blob ''a1'' ''A'' 100 100 100]"
  define small where "small = ex_world [ex_blob ''a1'' ''A'' 100 100 20]"
  define split where "split = playerSplit (\<lambda>r. ''0'') (\<lambda>k. 0) (\<lambda>k. 0) ''A'' \<lparr> vec_x = 400, vec_y = 300 \<rparr>
        \<lparr> width = 800, height = 600 \<rparr> \<lparr> cam_x = 100, cam_y = 100, zoom = 1 \<rparr>"
  have ob: "owned ''A'' big = [ex_blob ''a1'' ''A'' 100 100 100]"
    and os: "owned ''A'' small = [ex_blob ''a1'' ''A'' 100 100 20]"
    by (simp_all add: owned_def big_def small_def ex_world_def ex_blob_def)
  have cb: "getMaxBlobsForMass (sum_list (map mass (owned ''A'' big))) = 4"
    and cs: "getMaxBlobsForMass (sum_list (map mass (owned ''A'' small))) = 1"
    by (simp_all add: ob os getMaxBlobsForMass_def MIN_MASS_TO_SPLIT_def ex_blob_def)
  note inst_big = split_respects_cap [of "''A''" big "\<lambda>r. ''0''" "\<lambda>k. 0" "\<lambda>k. 0"
      "\<lparr> vec_x = 400, vec_y = 300 \<rparr>" "\<lparr> width = 800, height = 600 \<rparr>"
      "\<lparr> cam_x = 100, cam_y = 100, zoom = 1 \<rparr>", folded split_def]
  note inst_small = split_respects_cap [of "''A''" small "\<lambda>r. ''0''" "\<lambda>k. 0" "\<lambda>k. 0"
      "\<lparr> vec_x = 400, vec_y = 300 \<rparr>" "\<lparr> width = 800, height = 600 \<rparr>"
      "\<lparr> cam_x = 100, cam_y = 100, zoom = 1 \<rparr>", folded split_def]
  from inst_big [unfolded cb, unfolded ob] have 2: "length (owned ''A'' (split big)) \<le> 4"
    by simp
  from inst_small [unfolded cs, unfolded os] have 3: "split small = small"
    by simp
  have 1: "map (mass \<circ> snd) (blobs (split big)) = [50, 50]"
    by (simp add: split_def playerSplit_def big_def ex_world_def Let_def split_blob_def
          getMaxBlobsForMass_def MIN_MASS_TO_SPLIT_def atan2_def ex_blob_def)
  from 1 2 3 show ?thesis
    unfolding split_def big_def small_def by simp
qed

subsection \<open>Radius and mass\<close>

lemma move_blob_ok: "radius_ok b \<Longrightarrow> radius_ok (move_blob b)"
  by (simp add: radius_ok_def move_blob_def)

lemma eat_food_ok: "radius_ok b \<Longrightarrow> radius_ok (fst (eat_food b fd))"
proof (induction fd arbitrary: b)
  case Nil
  then show ?case by simp
next
  case (Cons f fs)
  have "radius_ok (b\<lparr> mass := mass b + food_mass f,
                        radius := massToRadius (mass b + food_mass f) \<rparr>)"
    by (simp add: radius_ok_def)
  from Cons.IH [OF this] Cons.IH [OF Cons.prems] show ?case
    by (simp add: split_beta)
qed

lemma eat_all_ok: "\<forall>b \<in> set bs. radius_ok b \<Longrightarrow> \<forall>b \<in> set (fst (eat_all bs fd)). radius_ok b"
  by (induction bs arbitrary: fd) (simp_all add: split_beta eat_food_ok)

lemma absorb_ok: "\<forall>b \<in> set bs. radius_ok b \<Longrightarrow> \<forall>b \<in> set (absorb w l bs). radius_ok b"
proof -
  assume ok: "\<forall>b \<in> set bs. radius_ok b"
  have "radius_ok ((bs ! w)\<lparr> mass := mass (bs ! w) + mass (bs ! l),
                              radius := massToRadius (mass (bs ! w) + mass (bs ! l)) \<rparr>)"
    by (simp add: radius_ok_def)
  with ok show ?thesis
    unfolding absorb_def using set_update_subset_insert [of bs w] by blast
qed

lemma resolve_pair_ok:
  "\<forall>b \<in> set (fst st). radius_ok b \<Longrightarrow> \<forall>b \<in> set (fst (resolve_pair now i j st)). radius_ok b"
  using resolve_pair_cases [of now i j st] absorb_ok [of "fst st"] by auto

lemma run_pairs_ok:
  "\<forall>b \<in> set (fst st). radius_ok b \<Longrightarrow> \<forall>b \<in> set (fst (run_pairs clk ps st)). radius_ok b"
proof (induction ps rule: rev_induct)
  case Nil
  then show ?case by (simp add: run_pairs_Nil)
next
  case (snoc p ps)
  obtain i j where p: "p = (i, j)" by (cases p)
  show ?case unfolding p run_pairs_snoc
    by (rule resolve_pair_ok) (rule snoc.IH [OF snoc.prems])
qed

lemma tick_ok: "radius_inv w \<Longrightarrow> radius_inv (fst (tick fmt clk rnd w))"
proof -
  assume inv: "radius_inv w"
  then have "\<forall>b \<in> set (map (move_blob \<circ> snd) (blobs w)). radius_ok b"
    by (auto simp: radius_inv_def move_blob_ok)
  then have "\<forall>b \<in> set (scan_input w). radius_ok b"
    unfolding scan_input_def by (rule eat_all_ok)
  then have "\<forall>b \<in> set (fst (run_pairs clk (pairs (length (scan_input w))) (scan_input w, []))). radius_ok b"
    by (intro run_pairs_ok) simp
  then have ok: "\<forall>b \<in> set (fst (blob_scan clk (scan_input w))). radius_ok b"
    by (simp add: blob_scan_pairs)
  show ?thesis
    unfolding radius_inv_def tick_blobs fold_delete_set
    using ok by (auto dest: set_zip_rightD)
qed

lemma update_values: "snd ` set (AList.update k v m) \<subseteq> insert v (snd ` set m)"
  by (induction m) auto

lemma updates_values:
  "snd ` set (foldl (\<lambda>m b. AList.update (blob_id b) b m) m news) \<subseteq> snd ` set m \<union> set news"
proof (induction news arbitrary: m)
  case Nil
  show ?case by simp
next
  case (Cons b news)
  have "snd ` set (foldl (\<lambda>m b. AList.update (blob_id b) b m) (AList.update (blob_id b) b m) news)
          \<subseteq> snd ` set (AList.update (blob_id b) b m) \<union> set news"
    by (rule Cons.IH)
  also have "\<dots> \<subseteq> insert b (snd ` set m) \<union> set news"
    using update_values [of "blob_id b" b m] by blast
  finally show ?case by auto
qed

lemma connect_ok: "radius_inv w \<Longrightarrow> radius_inv (fst (snd (connectPlayer fmt clk rnd nm w)))"
proof -
  assume inv: "radius_inv w"
  define blob where "blob = createBlob fmt (\<lambda>k. clk (Suc k)) rnd (nm @ ''-'' @ fmt (of_int (clk 0))) nm"
  have ok: "radius_ok blob"
    by (simp add: blob_def radius_ok_def createBlob_def)
  have b: "blobs (fst (snd (connectPlayer fmt clk rnd nm w)))
             = AList.update (blob_id blob) blob (blobs w)"
    by (simp add: connectPlayer_def Let_def blob_def)
  show ?thesis
    unfolding radius_inv_def b
    using update_values [of "blob_id blob" blob "blobs w"] inv [unfolded radius_inv_def] ok
    by blast
qed

lemma split_blob_ok:
  "radius_ok (fst (split_blob fmt rt mousePos windowSize camera now r b))"
  "radius_ok (snd (split_blob fmt rt mousePos windowSize camera now r b))"
  by (simp_all add: split_blob_def Let_def radius_ok_def)

lemma split_loop_ok:
  assumes "\<And>k b. radius_ok (fst (mk k b)) \<and> radius_ok (snd (mk k b))"
  shows "\<forall>b \<in> snd ` set m. radius_ok b \<Longrightarrow> \<forall>b \<in> set news. radius_ok b \<Longrightarrow>
     (\<forall>b \<in> snd ` set (fst (split_loop mk pid n cap m news)). radius_ok b)
     \<and> (\<forall>b \<in> set (snd (split_loop mk pid n cap m news)). radius_ok b)"
proof (induction m arbitrary: news)
  case Nil
  then show ?case by simp
next
  case (Cons e m)
  obtain k b where e: "e = (k, b)" by (cases e)
  from Cons.prems have m: "\<forall>b \<in> snd ` set m. radius_ok b" and b: "radius_ok b"
    by (simp_all add: e)
  have news': "\<forall>x \<in> set (news @ [snd (mk (length news) b)]). radius_ok x"
    using Cons.prems(2) assms by simp
  from Cons.IH [OF m Cons.prems(2)] Cons.IH [OF m news'] b assms
  show ?case by (simp add: e split_beta)
qed

lemma split_ok:
  "radius_inv w \<Longrightarrow> radius_inv (playerSplit fmt clk rnd pid mousePos windowSize camera w)"
proof -
  assume inv: "radius_inv w"
  let ?mk = "\<lambda>k. split_blob fmt (clk 0 + RECOMBINE_DELAY_MS) mousePos windowSize camera
                   (clk (Suc k)) (rnd k)"
  let ?w' = "playerSplit fmt clk rnd pid mousePos windowSize camera w"
  have m: "\<forall>b \<in> snd ` set (blobs w). radius_ok b" using inv by (simp add: radius_inv_def)
  have loop: "(\<forall>b \<in> snd ` set (fst (split_loop ?mk pid n cap (blobs w) [])). radius_ok b)
     \<and> (\<forall>b \<in> set (snd (split_loop ?mk pid n cap (blobs w) [])). radius_ok b)" for n cap
    by (rule split_loop_ok [OF _ m]) (simp_all add: split_blob_ok)
  have "blobs ?w' = blobs w
        \<or> (\<exists>n cap. blobs ?w' = foldl (\<lambda>m b. AList.update (blob_id b) b m)
              (fst (split_loop ?mk pid n cap (blobs w) []))
              (snd (split_loop ?mk pid n cap (blobs w) [])))"
    by (auto simp: playerSplit_def Let_def split_beta)
  then show ?thesis
  proof
    assume "blobs ?w' = blobs w"
    with m show ?thesis by (simp add: radius_inv_def)
  next
    assume "\<exists>n cap. blobs ?w' = foldl (\<lambda>m b. AList.update (blob_id b) b m)
              (fst (split_loop ?mk pid n cap (blobs w) []))
              (snd (split_loop ?mk pid n cap (blobs w) []))"
    then obtain n cap where b: "blobs ?w' = foldl (\<lambda>m b. AList.update (blob_id b) b m)
              (fst (split_loop ?mk pid n cap (blobs w) []))
              (snd (split_loop ?mk pid n cap (blobs w) []))" by blast
    show ?thesis
      unfolding radius_inv_def b
      using loop [of n cap]
        updates_values [of "fst (split_loop ?mk pid n cap (blobs w) [])"
                           "snd (split_loop ?mk pid n cap (blobs w) [])"]
      by blast
  qed
qed

lemma disconnect_values:
  "set (foldl (\<lambda>m b. if playerId b = pid then AList.delete (blob_id b) m else m) m bs) \<subseteq> set m"
proof (induction bs arbitrary: m)
  case Nil
  show ?case by simp
next
  case (Cons b bs)
  have "set (AList.delete (blob_id b) m) \<subseteq> set m" by (auto simp: AList.delete_eq)
  with Cons.IH [of "AList.delete (blob_id b) m"] Cons.IH [of m] show ?case
    by (cases "playerId b = pid") auto
qed

lemma disconnect_ok: "radius_inv w \<Longrightarrow> radius_inv (disconnectPlayer pid w)"
  unfolding radius_inv_def disconnectPlayer_def
  using disconnect_values [of pid "blobs w" "map snd (blobs w)"] by auto

lemma steer_ok: "radius_ok b \<Longrightarrow> radius_ok (steer t b)"
  by (simp add: steer_def Let_def radius_ok_def)

lemma write_back_ok:
  "\<forall>b \<in> snd ` set m. radius_ok b \<Longrightarrow> \<forall>(index, n, b) \<in> set xs. radius_ok (g index b) \<Longrightarrow>
     \<forall>b \<in> snd ` set (foldl (\<lambda>m (index, n, p_blob). m[n := (fst (m ! n), g index p_blob)]) m xs).
        radius_ok b"
proof (induction xs arbitrary: m)
  case Nil
  then show ?case by simp
next
  case (Cons x xs)
  obtain index n b where x: "x = (index, n, b)" by (cases x)
  have "\<forall>b \<in> snd ` set (m[n := (fst (m ! n), g index b)]). radius_ok b"
    using Cons.prems set_update_subset_insert [of m n "(fst (m ! n), g index b)"]
    by (auto simp: x)
  from Cons.IH [OF this] Cons.prems(2) show ?case by (simp add: x)
qed

lemma input_ok:
  "radius_inv w \<Longrightarrow> radius_inv (updatePlayerInput clk pid mousePos windowSize camera w)"
proof -
  assume inv: "radius_inv w"
  let ?pb = "sort_key (\<lambda>(n, b). - mass b)
              (filter (\<lambda>(n, b). playerId b = pid) (enumerate 0 (map snd (blobs w))))"
  have pb: "radius_ok b" if "(n, b) \<in> set ?pb" for n b
  proof -
    from that have "(n, b) \<in> set (enumerate 0 (map snd (blobs w)))" by simp
    then have "b \<in> snd ` set (blobs w)" by (auto simp: in_set_enumerate_eq)
    with inv [unfolded radius_inv_def] show ?thesis by blast
  qed
  have en: "\<forall>(index, n, b) \<in> set (enumerate 0 ?pb). radius_ok (steer (t index b) b)" for t
  proof (intro ballI)
    fix x assume x: "x \<in> set (enumerate 0 ?pb)"
    obtain index n b where xe: "x = (index, n, b)" by (cases x)
    from x xe have lt: "index < length ?pb" and at: "?pb ! index = (n, b)"
      by (simp_all add: in_set_enumerate_eq)
    have "?pb ! index \<in> set ?pb" by (rule nth_mem [OF lt])
    then have "(n, b) \<in> set ?pb" by (simp only: at)
    from steer_ok [OF pb [OF this]]
    show "case x of (index, n, b) \<Rightarrow> radius_ok (steer (t index b) b)"
      by (simp add: xe)
  qed
  have m: "\<forall>b \<in> snd ` set (blobs w). radius_ok b" using inv by (simp add: radius_inv_def)
  note wb = write_back_ok [OF m en]
  show ?thesis
    unfolding updatePlayerInput_def Let_def
    using inv wb by (simp add: radius_inv_def)
qed


text \<open>
  C6. A fresh server satisfies the invariant "every blob of the world has the radius
  \<open>sqrt (mass / pi) * 10\<close> of its mass", and every operation keeps it: joining, a whole
  tick (movement, feeding, recombination, engulfment), a split, a steering update and a
  disconnect.
\<close>

theorem radius_follows_mass:
  "radius_inv (GameServer_new fmt rnd)
   \<and> (radius_inv w \<longrightarrow>
        radius_inv (fst (snd (connectPlayer fmt clk rnd nm w)))
        \<and> radius_inv (fst (tick fmt pair_clk rnd w))
        \<and> radius_inv (playerSplit fmt clk rnd pid mousePos windowSize camera w)
        \<and> radius_inv (updatePlayerInput clk pid mousePos windowSize camera w)
        \<and> radius_inv (disconnectPlayer pid w))"
proof -
  have init: "radius_inv (GameServer_new fmt rnd)"
    by (simp add: radius_inv_def GameServer_new_def)
  show ?thesis
    by (intro conjI impI init connect_ok tick_ok split_ok input_ok disconnect_ok; assumption)
qed

text \<open>One blob of mass 100: the invariant holds before and after a tick and a split.\<close>

theorem radius_follows_mass_witness:
  "radius_inv (ex_world [ex_blob ''a1'' ''A'' 100 100 100])
   \<and> radius_inv (fst (tick (\<lambda>r. ''0'') (\<lambda>i j. 0) (\<lambda>k. 0) (ex_world [ex_blob ''a1'' ''A'' 100 100 100])))
   \<and> radius_inv (playerSplit (\<lambda>r. ''0'') (\<lambda>k. 0) (\<lambda>k. 0) ''A'' \<lparr> vec_x = 400, vec_y = 300 \<rparr>
        \<lparr> width = 800, height = 600 \<rparr> \<lparr> cam_x = 100, cam_y = 100, zoom = 1 \<rparr>
        (ex_world [ex_blob ''a1'' ''A'' 100 100 100]))
   \<and> map (radius \<circ> snd) (blobs (playerSplit (\<lambda>r. ''0'') (\<lambda>k. 0) (\<lambda>k. 0) ''A'' \<lparr> vec_x = 400, vec_y = 300 \<rparr>
        \<lparr> width = 800, height = 600 \<rparr> \<lparr> cam_x = 100, cam_y = 100, zoom = 1 \<rparr>
        (ex_world [ex_blob ''a1'' ''A'' 100 100 100]))) = [massToRadius 50, massToRadius 50]"
proof -
  define w where "w = ex_world [ex_blob ''a1'' ''A'' 100 100 100]"
  have inv: "radius_inv w"
    by (simp add: w_def radius_inv_def radius_ok_def ex_world_def ex_blob_def)
  note inst = radius_follows_mass [where w = w and fmt = "\<lambda>r. ''0''" and rnd = "\<lambda>k. 0"
      and clk = "\<lambda>k. 0" and pair_clk = "\<lambda>i j. 0" and pid = "''A''"
      and mousePos = "\<lparr> vec_x = 400, vec_y = 300 \<rparr>"
      and windowSize = "\<lparr> width = 800, height = 600 \<rparr>"
      and camera = "\<lparr> cam_x = 100, cam_y = 100, zoom = 1 \<rparr>", THEN conjunct2, THEN mp, OF inv]
  have r: "map (radius \<circ> snd) (blobs (playerSplit (\<lambda>r. ''0'') (\<lambda>k. 0) (\<lambda>k. 0) ''A''
        \<lparr> vec_x = 400, vec_y = 300 \<rparr> \<lparr> width = 800, height = 600 \<rparr>
        \<lparr> cam_x = 100, cam_y = 100, zoom = 1 \<rparr> w)) = [massToRadius 50, massToRadius 50]"
    by (simp add: playerSplit_def w_def ex_world_def Let_def split_blob_def
          getMaxBlobsForMass_def MIN_MASS_TO_SPLIT_def atan2_def ex_blob_def)
  show ?thesis
    unfolding w_def [symmetric]
    by (intro conjI inv r inst [THEN conjunct2, THEN conjunct1]
          inst [THEN conjunct2, THEN conjunct2, THEN conjunct1])
qed

subsection \<open>The leaderboard\<close>

lemma playerMasses_snoc:
  "playerMasses (bs @ [b])
     = AList.update (playerId b)
         ((case map_of (playerMasses bs) (playerId b) of None \<Rightarrow> 0 | Some v \<Rightarrow> v) + mass b)
         (playerMasses bs)"
  by (simp add: playerMasses_def)

lemma playerMasses_Nil: "playerMasses [] = []"
  by (simp add: playerMasses_def)

lemma player_mass_snoc:
  "player_mass (bs @ [b]) pid = player_mass bs pid + (if playerId b = pid then mass b else 0)"
  by (simp add: player_mass_def)

lemma player_mass_absent: "pid \<notin> playerId ` set bs \<Longrightarrow> player_mass bs pid = 0"
  by (induction bs) (auto simp: player_mass_def)

lemma playerMasses_lookup:
  "map_of (playerMasses bs) pid
     = (if pid \<in> playerId ` set bs then Some (player_mass bs pid) else None)"
proof (induction bs arbitrary: pid rule: rev_induct)
  case Nil
  show ?case by (simp add: playerMasses_Nil)
next
  case (snoc b bs)
  show ?case
    unfolding playerMasses_snoc update_conv' player_mass_snoc
    by (auto simp: snoc.IH player_mass_absent)
qed

lemma playerMasses_keys: "map fst (playerMasses bs) = first_seen (map playerId bs)"
proof (induction bs rule: rev_induct)
  case Nil
  show ?case by (simp add: playerMasses_Nil first_seen_def)
next
  case (snoc b bs)
  show ?case
    unfolding playerMasses_snoc update_keys
    by (simp add: snoc.IH first_seen_def)
qed

lemma playerMasses_entry:
  assumes "(pid, m) \<in> set (playerMasses bs)"
  shows "pid \<in> playerId ` set bs \<and> m = player_mass bs pid"
proof -
  have "distinct (map fst (playerMasses bs))"
    by (simp add: playerMasses_keys first_seen_def)
  with assms have "map_of (playerMasses bs) pid = Some m" by simp
  then show ?thesis
    by (simp add: playerMasses_lookup split: if_splits)
qed

lemma entries_ids: "map lb_playerId (leaderboard_entries names bs) = first_seen (map playerId bs)"
  by (simp add: leaderboard_entries_def playerMasses_keys [symmetric] split_beta comp_def)

lemma entries_mass:
  assumes "e \<in> set (leaderboard_entries names bs)"
  shows "lb_playerId e \<in> playerId ` set bs \<and> lb_mass e = \<lfloor>player_mass bs (lb_playerId e)\<rfloor>
         \<and> lb_name e = display_name names (lb_playerId e)"
proof -
  from assms obtain pid m where pm: "(pid, m) \<in> set (playerMasses bs)"
    and e: "e = \<lparr> lb_name = display_name names pid, lb_mass = \<lfloor>m\<rfloor>, lb_playerId = pid \<rparr>"
    by (auto simp: leaderboard_entries_def)
  from playerMasses_entry [OF pm] show ?thesis by (simp add: e)
qed


text \<open>
  C8, as stated, fails. The code floors each player's summed mass before it sorts.
  Players A (20.25) and B (20.5) both get the entry mass 20 and the stable sort keeps A
  first: the leaderboard is not in descending order of the summed masses.
\<close>

theorem leaderboard_by_floor_counterexample:
  "map lb_playerId (gs_leaderboard (pushState ex_tie_world)) = [''A'', ''B'']
   \<and> map lb_mass (gs_leaderboard (pushState ex_tie_world)) = [20, 20]
   \<and> player_mass (map snd (blobs ex_tie_world)) ''A'' = 20.25
   \<and> player_mass (map snd (blobs ex_tie_world)) ''B'' = 20.5
   \<and> player_mass (map snd (blobs ex_tie_world)) ''A''
       < player_mass (map snd (blobs ex_tie_world)) ''B''"
proof -
  have pm: "playerMasses (map snd (blobs ex_tie_world)) = [(''A'', 20.25), (''B'', 20.5)]"
    by (simp add: playerMasses_def ex_tie_world_def ex_world_def ex_blob_def)
  have lb: "gs_leaderboard (pushState ex_tie_world)
      = [\<lparr> lb_name = ''Unknown'', lb_mass = 20, lb_playerId = ''A'' \<rparr>,
         \<lparr> lb_name = ''Unknown'', lb_mass = 20, lb_playerId = ''B'' \<rparr>]"
    unfolding pushState_def leaderboard_sorted_def leaderboard_entries_def pm
    by (simp add: display_name_def ex_tie_world_def ex_world_def)
  have a: "player_mass (map snd (blobs ex_tie_world)) ''A'' = 20.25"
    and b: "player_mass (map snd (blobs ex_tie_world)) ''B'' = 20.5"
    by (simp_all add: player_mass_def ex_tie_world_def ex_world_def ex_blob_def)
  show ?thesis by (simp add: lb a b)
qed


text \<open>
  C8, amended. The published leaderboard is the first 10 entries of a list that has one
  entry per owning player of the live blobs, carrying the floor of the sum of the
  masses of that player's blobs; the list is in descending order of that floored mass,
  and entries of equal floored mass are in the order of the players' first blobs in the
  map (the sort is stable). So the leaderboard has at most 10 entries and is itself in
  descending order of the floored mass.
\<close>

theorem leaderboard_sorted_by_floor:
  "gs_leaderboard (pushState w) = take 10 (leaderboard_sorted (playerNames w) (map snd (blobs w)))
   \<and> length (gs_leaderboard (pushState w)) \<le> 10
   \<and> sorted_wrt (\<lambda>a b. lb_mass a \<ge> lb_mass b) (leaderboard_sorted (playerNames w) (map snd (blobs w)))
   \<and> sorted_wrt (\<lambda>a b. lb_mass a \<ge> lb_mass b) (gs_leaderboard (pushState w))
   \<and> (\<forall>e \<in> set (leaderboard_sorted (playerNames w) (map snd (blobs w))).
         lb_playerId e \<in> playerId ` snd ` set (blobs w)
         \<and> lb_mass e = \<lfloor>player_mass (map snd (blobs w)) (lb_playerId e)\<rfloor>)
   \<and> lb_playerId ` set (leaderboard_sorted (playerNames w) (map snd (blobs w)))
         = playerId ` snd ` set (blobs w)
   \<and> map lb_playerId (leaderboard_entries (playerNames w) (map snd (blobs w)))
         = first_seen (map (playerId \<circ> snd) (blobs w))
   \<and> (\<forall>k. filter (\<lambda>e. lb_mass e = k) (leaderboard_sorted (playerNames w) (map snd (blobs w)))
            = filter (\<lambda>e. lb_mass e = k) (leaderboard_entries (playerNames w) (map snd (blobs w))))"
proof -
  let ?bs = "map snd (blobs w)"
  let ?E = "leaderboard_entries (playerNames w) ?bs"
  let ?S = "leaderboard_sorted (playerNames w) ?bs"
  have L: "gs_leaderboard (pushState w) = take 10 ?S" by (simp add: pushState_def)
  have len: "length (gs_leaderboard (pushState w)) \<le> 10" by (simp add: L)
  have "sorted (map (\<lambda>e. - lb_mass e) ?S)"
    unfolding leaderboard_sorted_def by (rule sorted_sort_key)
  then have srt: "sorted_wrt (\<lambda>a b. lb_mass a \<ge> lb_mass b) ?S"
    by (simp add: sorted_map)
  then have srtL: "sorted_wrt (\<lambda>a b. lb_mass a \<ge> lb_mass b) (gs_leaderboard (pushState w))"
    unfolding L by (rule sorted_wrt_take)
  have setS: "set ?S = set ?E" by (simp add: leaderboard_sorted_def)
  have mass: "\<forall>e \<in> set ?S. lb_playerId e \<in> playerId ` snd ` set (blobs w)
         \<and> lb_mass e = \<lfloor>player_mass ?bs (lb_playerId e)\<rfloor>"
    unfolding setS using entries_mass [of _ "playerNames w" ?bs] by auto
  have ids: "map lb_playerId ?E = first_seen (map (playerId \<circ> snd) (blobs w))"
    by (simp add: entries_ids)
  have "lb_playerId ` set ?S = set (map lb_playerId ?E)" by (simp add: setS)
  also have "\<dots> = playerId ` snd ` set (blobs w)"
    unfolding ids by (auto simp: first_seen_def)
  finally have all: "lb_playerId ` set ?S = playerId ` snd ` set (blobs w)" .
  have stable: "\<forall>k. filter (\<lambda>e. lb_mass e = k) ?S = filter (\<lambda>e. lb_mass e = k) ?E"
  proof
    fix k
    have "filter (\<lambda>e. - lb_mass e = - k) ?S = filter (\<lambda>e. - lb_mass e = - k) ?E"
      unfolding leaderboard_sorted_def by (rule sort_key_stable)
    then show "filter (\<lambda>e. lb_mass e = k) ?S = filter (\<lambda>e. lb_mass e = k) ?E" by simp
  qed
  from L len srt srtL mass all ids stable show ?thesis by blast
qed

text \<open>A's blobs sum to 25.25, floored to 25, behind B's 30.\<close>

theorem leaderboard_sorted_by_floor_witness:
  "map lb_playerId (gs_leaderboard (pushState ex_rank_world)) = [''B'', ''A'']
   \<and> map lb_mass (gs_leaderboard (pushState ex_rank_world)) = [30, 25]
   \<and> length (gs_leaderboard (pushState ex_rank_world)) \<le> 10
   \<and> sorted_wrt (\<lambda>a b. lb_mass a \<ge> lb_mass b) (gs_leaderboard (pushState ex_rank_world))
   \<and> map lb_playerId (leaderboard_entries (playerNames ex_rank_world) (map snd (blobs ex_rank_world)))
       = first_seen (map (playerId \<circ> snd) (blobs ex_rank_world))"
proof -
  have pm: "playerMasses (map snd (blobs ex_rank_world)) = [(''A'', 25.25), (''B'', 30)]"
    by (simp add: playerMasses_def ex_rank_world_def ex_world_def ex_blob_def)
  have lb: "gs_leaderboard (pushState ex_rank_world)
      = [\<lparr> lb_name = ''Unknown'', lb_mass = 30, lb_playerId = ''B'' \<rparr>,
         \<lparr> lb_name = ''Unknown'', lb_mass = 25, lb_playerId = ''A'' \<rparr>]"
    unfolding pushState_def leaderboard_sorted_def leaderboard_entries_def pm
    by (simp add: display_name_def ex_rank_world_def ex_world_def)
  note inst = leaderboard_sorted_by_floor [of ex_rank_world]
  have 1: "map lb_playerId (gs_leaderboard (pushState ex_rank_world)) = [''B'', ''A'']"
    and 2: "map lb_mass (gs_leaderboard (pushState ex_rank_world)) = [30, 25]"
    by (simp_all add: lb)
  show ?thesis
    by (intro conjI 1 2 inst [THEN conjunct2, THEN conjunct1]
          inst [THEN conjunct2, THEN conjunct2, THEN conjunct2, THEN conjunct1]
          inst [THEN conjunct2, THEN conjunct2, THEN conjunct2, THEN conjunct2, THEN conjunct2,
                THEN conjunct2, THEN conjunct1])
qed

end
